theory Spec2Isabelle
  imports Complex_Main "HOL-Library.AList"
begin

section \<open>The request/reply service of src/services/RabbitMQRequestReplyService.ts\<close>

text \<open>
  The service is a TypeScript class running on the single-threaded Node.js event loop.
  Its methods are embedded as functions on an explicit state that holds the fields of
  the class (\<open>pendingRequests\<close>, \<open>replyQueue\<close>, \<open>isInitialized\<close>) together with the
  parts of the runtime the methods act on: the promises they settle, the timers they arm
  and clear, the transport they publish to, and the console.

  Strings are lists of \<^typ>\<open>char\<close>; a character stands for a UTF-16 code unit below 256.
  The numbers of the source that the service handles (time-outs, clock readings, error
  codes) are modelled as \<^typ>\<open>int\<close>.
\<close>

subsection \<open>Errors and messages\<close>

text \<open>
  The numbers that become the code of an error: an integer, or one of the two infinities
  (\<open>parseInt\<close> gives an infinity for more digits than a double can hold).
\<close>

datatype number = Integer int | PlusInfinity | MinusInfinity

text \<open>
  \<open>class AppError extends Error\<close> (\<open>code: number\<close>, \<open>message: string\<close>). \<open>AppError c m\<close> is
  the error whose code is the integer \<open>c\<close>, which is what every \<open>new AppError\<close> of the
  service with a literal code builds; \<open>AppError_Infinity negative m\<close> is the error whose code
  is \<open>Infinity\<close> or \<open>-Infinity\<close>. \<open>new_AppError\<close> is the constructor on any number.
\<close>

datatype AppError = AppError int string | AppError_Infinity bool string

fun new_AppError :: "number \<Rightarrow> string \<Rightarrow> AppError" where
  "new_AppError (Integer c) m = AppError c m"
| "new_AppError PlusInfinity m = AppError_Infinity False m"
| "new_AppError MinusInfinity m = AppError_Infinity True m"

text \<open>The \<open>error\<close> object of a \<open>BaseResponse\<close>; the optional \<open>details\<close> is in the extension.\<close>

record ResponseError =
  code :: string
  message :: string

text \<open>
  \<open>interface BaseResponse\<close>. The fields that the concrete responses add (\<open>messageType\<close>,
  \<open>data\<close>) are the extension of the record.
\<close>

record BaseResponse =
  requestId :: string
  timestamp :: string
  success :: bool
  error :: "ResponseError option"

text \<open>
  \<open>fullRequest\<close> of \<open>sendRequest\<close>: the caller's fields (\<open>...request\<close>) and the four fields that
  \<open>sendRequest\<close> sets.
\<close>

record 'q FullRequest =
  req_fields :: 'q
  req_requestId :: string
  req_timestamp :: string
  req_replyTo :: string
  req_timeout :: int

text \<open>
  \<open>interface PendingRequest\<close>. The closures \<open>resolve\<close> and \<open>reject\<close> belong to the same
  promise (the \<open>responsePromise\<close> of the call); the model stores that promise's identity in
  \<open>settle\<close>. \<open>timeout\<close> is the handle that \<open>setTimeout\<close> returned.
\<close>

record PendingRequest =
  settle :: nat
  timeout :: nat
  pending_requestId :: string
  requestedAt :: int

subsection \<open>The runtime: promises, timers, transport, console\<close>

datatype 'r promise_state = Pending | Fulfilled 'r | Rejected AppError

text \<open>
  An armed timer. The callback that \<open>sendRequest\<close> passes to \<open>setTimeout\<close> captures
  \<open>requestId\<close>, \<open>reject\<close> and \<open>timeout\<close>; \<open>timer_text\<close> is what the template literal
  \<open>${timeout}\<close> of the callback prints. \<open>delay\<close> is the second argument of \<open>setTimeout\<close> and
  \<open>due\<close> the reading of the runtime's timer clock, in milliseconds, at which the timer
  fires.
\<close>

record timer =
  delay :: int
  due :: int
  timer_requestId :: string
  timer_reject :: nat
  timer_timeout :: int
  timer_text :: string

text \<open>
  Node.js: a delay that is not between 1 and 2147483647 is set to 1.
\<close>

definition timer_after :: "int \<Rightarrow> int" where
  "timer_after d = (if 1 \<le> d \<and> d \<le> 2147483647 then d else 1)"

text \<open>
  What a call into the transport does: it returns or it throws. \<open>Throws\<close> carries the
  thrown value as a template literal prints it (\<open>${error}\<close>).
\<close>

datatype 'a outcome = Returns 'a | Throws string

record queue_options =
  exclusive :: bool
  durable :: bool
  autoDelete :: bool

datatype log_level = Log | Warn | Error

datatype log_line =
    AlreadyInitialized
  | Initialized string
  | InitializeFailed string
  | RequestSent string string
  | ResponseReceived string bool
  | UnknownRequestId string
  | ResponseTime int string
  | CleaningUp nat
  | CleanupDone

fun level :: "log_line \<Rightarrow> log_level" where
  "level AlreadyInitialized = Log"
| "level (Initialized q) = Log"
| "level (InitializeFailed e) = Error"
| "level (RequestSent q rid) = Log"
| "level (ResponseReceived rid ok) = Log"
| "level (UnknownRequestId rid) = Warn"
| "level (ResponseTime ms rid) = Log"
| "level (CleaningUp n) = Log"
| "level CleanupDone = Log"

text \<open>
  The state. \<open>pendingRequests\<close> is the JavaScript \<open>Map\<close>, kept as an association list in
  insertion order: \<open>get\<close> is \<^const>\<open>map_of\<close>, \<open>set\<close> is \<^const>\<open>AList.update\<close> (it replaces the
  value of a key that is present, in place, and appends a new key), \<open>delete\<close> is
  \<^const>\<open>AList.delete\<close>, \<open>size\<close> is \<^const>\<open>length\<close>.
\<close>

text \<open>
  For the order of the effects, each call of \<open>rabbitMQ.publish\<close> leaves a note of what the
  registry and the timers held, at that moment, for the identifier of the message. The
  notes are kept for the proofs only: the program has no such field and nothing reads them.
\<close>

record publish_note =
  noted_requestId :: string
  noted_entry :: "PendingRequest option"
  noted_timer :: "timer option"

record ('q, 'r) service =
  pendingRequests :: "(string \<times> PendingRequest) list"
  replyQueue :: string
  isInitialized :: bool
  promises :: "nat \<Rightarrow> 'r promise_state option"
  nextPromise :: nat
  timers :: "nat \<Rightarrow> timer option"
  nextTimer :: nat
  published :: "(string \<times> string \<times> 'q FullRequest) list"
  publishCalls :: nat
  atPublish :: "publish_note list"
  assertedQueues :: "(string \<times> queue_options) list"
  consumers :: "(string \<times> bool) list"
  console :: "log_line list"

definition console_log :: "log_line \<Rightarrow> ('q, 'r) service \<Rightarrow> ('q, 'r) service" where
  "console_log l s = s\<lparr>console := console s @ [l]\<rparr>"

text \<open>\<open>new Promise\<close>: a promise that nothing else refers to, not settled.\<close>

definition new_Promise :: "('q, 'r) service \<Rightarrow> nat \<times> ('q, 'r) service" where
  "new_Promise s =
     (nextPromise s,
      s\<lparr>promises := (promises s)(nextPromise s \<mapsto> Pending), nextPromise := Suc (nextPromise s)\<rparr>)"

text \<open>
  The \<open>resolve\<close> and \<open>reject\<close> functions of a promise: they settle it when it is pending and
  do nothing when it is settled already.
\<close>

definition promise_resolve :: "nat \<Rightarrow> 'r \<Rightarrow> ('q, 'r) service \<Rightarrow> ('q, 'r) service" where
  "promise_resolve p v s =
     (if promises s p = Some Pending then s\<lparr>promises := (promises s)(p \<mapsto> Fulfilled v)\<rparr> else s)"

definition promise_reject :: "nat \<Rightarrow> AppError \<Rightarrow> ('q, 'r) service \<Rightarrow> ('q, 'r) service" where
  "promise_reject p e s =
     (if promises s p = Some Pending then s\<lparr>promises := (promises s)(p \<mapsto> Rejected e)\<rparr> else s)"

text \<open>\<open>setTimeout\<close> arms a new timer and returns its handle; \<open>clearTimeout\<close> disarms one.\<close>

definition setTimeout :: "timer \<Rightarrow> ('q, 'r) service \<Rightarrow> nat \<times> ('q, 'r) service" where
  "setTimeout t s =
     (nextTimer s, s\<lparr>timers := (timers s)(nextTimer s \<mapsto> t), nextTimer := Suc (nextTimer s)\<rparr>)"

definition clearTimeout :: "nat \<Rightarrow> ('q, 'r) service \<Rightarrow> ('q, 'r) service" where
  "clearTimeout h s = s\<lparr>timers := (timers s)(h := None)\<rparr>"

text \<open>
  \<open>rabbitMQ.publish\<close> of src/messaging/RabbitMQConnection.ts. It throws when there is no
  channel, or when \<open>JSON.stringify\<close> or \<open>channel.publish\<close> throws; otherwise the message is
  handed to the channel and the channel's boolean is returned. Which of these happens is
  decided outside the service and is the argument \<open>r\<close>. Every call is counted and leaves
  its note.
\<close>

definition rabbitMQ_publish ::
  "bool outcome \<Rightarrow> string \<Rightarrow> string \<Rightarrow> 'q FullRequest \<Rightarrow> ('q, 'r) service \<Rightarrow>
     bool outcome \<times> ('q, 'r) service" where
  "rabbitMQ_publish r exchange routingKey msg s =
     (let entry = map_of (pendingRequests s) (req_requestId msg);
          s1 = s\<lparr>publishCalls := Suc (publishCalls s),
                 atPublish := atPublish s @
                   [\<lparr>noted_requestId = req_requestId msg, noted_entry = entry,
                     noted_timer = (case entry of None \<Rightarrow> None | Some p \<Rightarrow> timers s (timeout p))\<rparr>]\<rparr>
      in case r of
           Throws e \<Rightarrow> (Throws e, s1)
         | Returns b \<Rightarrow> (Returns b, s1\<lparr>published := published s1 @ [(exchange, routingKey, msg)]\<rparr>))"

definition rabbitMQ_assertQueue ::
  "unit outcome \<Rightarrow> string \<Rightarrow> queue_options \<Rightarrow> ('q, 'r) service \<Rightarrow> unit outcome \<times> ('q, 'r) service" where
  "rabbitMQ_assertQueue r queue opts s =
     (case r of
        Throws e \<Rightarrow> (Throws e, s)
      | Returns u \<Rightarrow> (Returns u, s\<lparr>assertedQueues := assertedQueues s @ [(queue, opts)]\<rparr>))"

definition rabbitMQ_consume ::
  "unit outcome \<Rightarrow> string \<Rightarrow> bool \<Rightarrow> ('q, 'r) service \<Rightarrow> unit outcome \<times> ('q, 'r) service" where
  "rabbitMQ_consume r queue noAck s =
     (case r of
        Throws e \<Rightarrow> (Throws e, s)
      | Returns u \<Rightarrow> (Returns u, s\<lparr>consumers := consumers s @ [(queue, noAck)]\<rparr>))"

subsection \<open>JavaScript's number and string conversions\<close>

text \<open>
  The double nearest to a natural number (ties to the even mantissa of 53 bits), as the
  number it denotes; \<open>None\<close> when it is beyond the doubles, where the result is \<open>Infinity\<close>.
  Up to \<open>2^53\<close> every natural number is a double.
\<close>

fun bit_length :: "nat \<Rightarrow> nat" where
  "bit_length n = (if n = 0 then 0 else Suc (bit_length (n div 2)))"

declare bit_length.simps [simp del]

definition round_to_double :: "nat \<Rightarrow> nat option" where
  "round_to_double n =
     (if n < 2 ^ 53 then Some n
      else
        (let e = bit_length n - 53;
             q = n div 2 ^ e;
             r = n mod 2 ^ e;
             half = 2 ^ (e - 1);
             m = (if half < r \<or> (r = half \<and> odd q) then q + 1 else q)
         in if 2 ^ 1024 \<le> m * 2 ^ e then None else Some (m * 2 ^ e)))"

text \<open>
  \<open>parseInt(string, 10)\<close>: leading white space is skipped, one sign is read, then the longest
  run of decimal digits; without a digit the result is \<open>NaN\<close> (\<open>None\<close>), otherwise the double
  nearest to the value of the digits, with the sign (a zero with either sign is
  \<open>Integer 0\<close>). The value is that of all the digits, as V8 computes it; ECMAScript also
  lets an implementation read the digits after the twentieth as zeros.
\<close>

definition isWhiteSpace :: "char \<Rightarrow> bool" where
  "isWhiteSpace c = (of_char c \<in> set [9, 10, 11, 12, 13, 32, 160 :: nat])"

definition isDigit :: "char \<Rightarrow> bool" where
  "isDigit c = (48 \<le> (of_char c :: nat) \<and> (of_char c :: nat) \<le> 57)"

definition digitValue :: "char \<Rightarrow> nat" where
  "digitValue c = of_char c - 48"

definition parseInt10 :: "string \<Rightarrow> number option" where
  "parseInt10 str =
     (let S = dropWhile isWhiteSpace str;
          negative = (S \<noteq> [] \<and> hd S = CHR ''-'');
          S' = (if S \<noteq> [] \<and> (hd S = CHR ''+'' \<or> hd S = CHR ''-'') then tl S else S);
          Z = takeWhile isDigit S'
      in if Z = [] then None
         else
           (case round_to_double (foldl (\<lambda>n c. 10 * n + digitValue c) 0 Z) of
              None \<Rightarrow> Some (if negative then MinusInfinity else PlusInfinity)
            | Some v \<Rightarrow> Some (Integer (if negative then - int v else int v))))"

text \<open>\<open>x || d\<close> on an optional string (\<open>undefined\<close> and the empty string are falsy).\<close>

definition or_string :: "string option \<Rightarrow> string \<Rightarrow> string" where
  "or_string x d = (case x of None \<Rightarrow> d | Some v \<Rightarrow> if v = [] then d else v)"

text \<open>\<open>x || d\<close> on a number (\<open>NaN\<close> and zero are falsy).\<close>

definition or_number :: "number option \<Rightarrow> number \<Rightarrow> number" where
  "or_number x d = (case x of None \<Rightarrow> d | Some n \<Rightarrow> if n = Integer 0 then d else n)"

text \<open>
  A number in a template literal. A safe integer (one of absolute value below \<open>2^53\<close>) is
  printed as its decimal digits, with a minus sign when negative; what is printed for
  another number is not worked out here (\<open>None\<close>).
\<close>

fun string_of_nat :: "nat \<Rightarrow> string" where
  "string_of_nat n =
     (if n < 10 then [''0123456789'' ! n]
      else string_of_nat (n div 10) @ [''0123456789'' ! (n mod 10)])"

declare string_of_nat.simps [simp del]

definition number_text :: "int \<Rightarrow> string option" where
  "number_text i =
     (if \<bar>i\<bar> < 2 ^ 53
      then Some (if i < 0 then CHR ''-'' # string_of_nat (nat (- i)) else string_of_nat (nat i))
      else None)"

subsection \<open>The methods of the class\<close>

text \<open>\<open>constructor(replyQueue: string = 'face.replies')\<close>, on a fresh runtime.\<close>

definition new_service :: "string option \<Rightarrow> ('q, 'r) service" where
  "new_service q =
     \<lparr>pendingRequests = [],
      replyQueue = (case q of None \<Rightarrow> ''face.replies'' | Some n \<Rightarrow> n),
      isInitialized = False,
      promises = (\<lambda>p. None), nextPromise = 0,
      timers = (\<lambda>h. None), nextTimer = 0,
      published = [], publishCalls = 0, atPublish = [],
      assertedQueues = [], consumers = [],
      console = []\<rparr>"

text \<open>
  \<open>initialize\<close>. The arguments \<open>rq\<close> and \<open>rc\<close> say what \<open>assertQueue\<close> and \<open>consume\<close> do. The
  result is \<open>Throws\<close> when the method rethrows.
\<close>

definition initialize ::
  "unit outcome \<Rightarrow> unit outcome \<Rightarrow> ('q, 'r) service \<Rightarrow> unit outcome \<times> ('q, 'r) service" where
  "initialize rq rc s =
     (if isInitialized s then (Returns (), console_log AlreadyInitialized s)
      else
        case rabbitMQ_assertQueue rq (replyQueue s)
               \<lparr>exclusive = False, durable = False, autoDelete = True\<rparr> s of
          (Throws e, s1) \<Rightarrow> (Throws e, console_log (InitializeFailed e) s1)
        | (Returns u, s1) \<Rightarrow>
            (case rabbitMQ_consume rc (replyQueue s1) True s1 of
               (Throws e, s2) \<Rightarrow> (Throws e, console_log (InitializeFailed e) s2)
             | (Returns v, s2) \<Rightarrow>
                 (Returns (), console_log (Initialized (replyQueue s2)) (s2\<lparr>isInitialized := True\<rparr>))))"

text \<open>
  What \<open>sendRequest\<close> reads from outside: the identifier that \<open>uuidv4()\<close> returns, the
  string of \<open>new Date().toISOString()\<close>, the number of \<open>Date.now()\<close>, what the publish
  does, the reading of the runtime's timer clock when \<open>setTimeout\<close> is called, and the text
  that the runtime prints for the time-out in a template literal (used only for a time-out
  that is not a safe integer).
\<close>

record send_env =
  uuid :: string
  isoTimestamp :: string
  dateNow :: int
  publishOutcome :: "bool outcome"
  timerClock :: int
  timeoutText :: string

definition not_initialized_message :: string where
  "not_initialized_message = ''RabbitMQRequestReplyService n'' @ [char_of (227 :: nat)] @ ''o inicializado''"

definition timeout_message :: "string \<Rightarrow> string \<Rightarrow> string" where
  "timeout_message text rid =
     ''Request timeout after '' @ text @ ''ms (requestId: '' @ rid @ '')''"

text \<open>
  The timer of \<open>setTimeout(() => {...}, timeout)\<close> in \<open>sendRequest\<close>, for the call with the
  promise \<open>responsePromise\<close>.
\<close>

definition deadline_timer :: "send_env \<Rightarrow> int \<Rightarrow> nat \<Rightarrow> timer" where
  "deadline_timer env tmo responsePromise =
     \<lparr>delay = tmo, due = timerClock env + timer_after tmo,
      timer_requestId = uuid env, timer_reject = responsePromise, timer_timeout = tmo,
      timer_text = (case number_text tmo of Some digits \<Rightarrow> digits | None \<Rightarrow> timeoutText env)\<rparr>"

definition publish_failed_message :: "string \<Rightarrow> string \<Rightarrow> string" where
  "publish_failed_message queue e = ''Falha ao enviar request para '' @ queue @ '': '' @ e"

text \<open>
  The first part of \<open>sendRequest\<close>, from \<open>uuidv4()\<close> to the end of the promise's executor:
  the request is built, the promise created, the timer armed and the entry stored.
\<close>

definition sendRequest_register ::
  "send_env \<Rightarrow> 'q \<Rightarrow> int \<Rightarrow> ('q, 'r) service \<Rightarrow> 'q FullRequest \<times> nat \<times> ('q, 'r) service" where
  "sendRequest_register env request tmo s =
     (let rid = uuid env;
          fullRequest = \<lparr>req_fields = request, req_requestId = rid,
                         req_timestamp = isoTimestamp env, req_replyTo = replyQueue s,
                         req_timeout = tmo\<rparr>;
          (responsePromise, s1) = new_Promise s;
          (timeoutHandle, s2) = setTimeout (deadline_timer env tmo responsePromise) s1;
          s3 = s2\<lparr>pendingRequests :=
                    AList.update rid
                      \<lparr>settle = responsePromise, timeout = timeoutHandle,
                       pending_requestId = rid, requestedAt = dateNow env\<rparr>
                      (pendingRequests s2)\<rparr>
      in (fullRequest, responsePromise, s3))"

text \<open>The rest of \<open>sendRequest\<close>, after the publish has returned or thrown.\<close>

definition sendRequest_published ::
  "string \<Rightarrow> string \<Rightarrow> nat \<Rightarrow> bool outcome \<Rightarrow> ('q, 'r) service \<Rightarrow> (AppError + nat) \<times> ('q, 'r) service" where
  "sendRequest_published queue rid responsePromise r s =
     (case r of
        Returns b \<Rightarrow> (Inr responsePromise, console_log (RequestSent queue rid) s)
      | Throws e \<Rightarrow>
          (Inl (AppError 503 (publish_failed_message queue e)),
           case map_of (pendingRequests s) rid of
             None \<Rightarrow> s
           | Some pending \<Rightarrow>
               (let s1 = clearTimeout (timeout pending) s
                in s1\<lparr>pendingRequests := AList.delete rid (pendingRequests s1)\<rparr>)))"

text \<open>
  \<open>sendRequest\<close>. The time-out is optional and defaults to 30000. The result is \<open>Inl\<close> of the
  error when the promise that the method returns is rejected by the method itself, and
  \<open>Inr\<close> of \<open>responsePromise\<close> when the method returns that promise: the call then ends the
  way \<open>responsePromise\<close> is settled.
\<close>

definition sendRequest ::
  "send_env \<Rightarrow> string \<Rightarrow> 'q \<Rightarrow> int option \<Rightarrow> ('q, 'r) service \<Rightarrow> (AppError + nat) \<times> ('q, 'r) service" where
  "sendRequest env queue request tm s =
     (let tmo = (case tm of None \<Rightarrow> 30000 | Some t \<Rightarrow> t)
      in if \<not> isInitialized s then (Inl (AppError 500 not_initialized_message), s)
         else
           (let (fullRequest, responsePromise, s1) = sendRequest_register env request tmo s;
                (r, s2) = rabbitMQ_publish (publishOutcome env) [] queue fullRequest s1
            in sendRequest_published queue (uuid env) responsePromise r s2))"

text \<open>The callback of the timer that \<open>sendRequest\<close> arms. A timer that is not armed does not fire.\<close>

definition timer_fires :: "nat \<Rightarrow> ('q, 'r) service \<Rightarrow> ('q, 'r) service" where
  "timer_fires h s =
     (case timers s h of
        None \<Rightarrow> s
      | Some t \<Rightarrow>
          (let s1 = s\<lparr>timers := (timers s)(h := None)\<rparr>;
               s2 = s1\<lparr>pendingRequests := AList.delete (timer_requestId t) (pendingRequests s1)\<rparr>
           in promise_reject (timer_reject t)
                (AppError 504 (timeout_message (timer_text t) (timer_requestId t))) s2))"

text \<open>\<open>handleResponse\<close>; \<open>now\<close> is the number that \<open>Date.now()\<close> returns.\<close>

definition handleResponse ::
  "'m BaseResponse_scheme \<Rightarrow> int \<Rightarrow> ('q, 'm BaseResponse_scheme) service \<Rightarrow>
     ('q, 'm BaseResponse_scheme) service" where
  "handleResponse response now s =
     (let s0 = console_log (ResponseReceived (requestId response) (success response)) s
      in case map_of (pendingRequests s0) (requestId response) of
           None \<Rightarrow> console_log (UnknownRequestId (requestId response)) s0
         | Some pending \<Rightarrow>
             (let s1 = clearTimeout (timeout pending) s0;
                  s2 = s1\<lparr>pendingRequests := AList.delete (requestId response) (pendingRequests s1)\<rparr>;
                  s3 = console_log (ResponseTime (now - requestedAt pending) (requestId response)) s2
              in if success response then promise_resolve (settle pending) response s3
                 else
                   (let errorMessage = or_string (map_option message (error response))
                                         ''Face recognition service error'';
                        errorCode = or_string (map_option code (error response)) ''500''
                    in promise_reject (settle pending)
                         (new_AppError (or_number (parseInt10 errorCode) (Integer 500)) errorMessage)
                         s3)))"

text \<open>
  \<open>cleanup\<close>. The loop visits the entries in insertion order; its body removes only the entry
  it is at, so the entries visited are those present when the loop starts.
\<close>

fun cleanup_loop ::
  "(string \<times> PendingRequest) list \<Rightarrow> ('q, 'r) service \<Rightarrow> ('q, 'r) service" where
  "cleanup_loop [] s = s"
| "cleanup_loop ((rid, pending) # es) s =
     (let s1 = clearTimeout (timeout pending) s;
          s2 = promise_reject (settle pending) (AppError 503 ''Service shutting down'') s1;
          s3 = s2\<lparr>pendingRequests := AList.delete rid (pendingRequests s2)\<rparr>
      in cleanup_loop es s3)"

definition cleanup :: "('q, 'r) service \<Rightarrow> ('q, 'r) service" where
  "cleanup s =
     (let s1 = console_log (CleaningUp (length (pendingRequests s))) s;
          s2 = cleanup_loop (pendingRequests s1) s1;
          s3 = s2\<lparr>isInitialized := False\<rparr>
      in console_log CleanupDone s3)"

record stats =
  stats_pendingRequests :: nat
  stats_isInitialized :: bool
  stats_replyQueue :: string

definition getStats :: "('q, 'r) service \<Rightarrow> stats" where
  "getStats s =
     \<lparr>stats_pendingRequests = length (pendingRequests s),
      stats_isInitialized = isInitialized s,
      stats_replyQueue = replyQueue s\<rparr>"

text \<open>
  The runtime's timer clock reaches \<open>T\<close>: the armed timers that are due by then fire, the
  earliest first, and those due together in the order in which they were armed. (The
  callback of a timer arms no timer and disarms no other one.)
\<close>

definition due_handles :: "int \<Rightarrow> ('q, 'r) service \<Rightarrow> nat list" where
  "due_handles T s =
     sort_key (\<lambda>h. case timers s h of None \<Rightarrow> 0 | Some t \<Rightarrow> due t)
       (filter (\<lambda>h. case timers s h of None \<Rightarrow> False | Some t \<Rightarrow> due t \<le> T)
          [0..<nextTimer s])"

definition advance_to :: "int \<Rightarrow> ('q, 'r) service \<Rightarrow> ('q, 'r) service" where
  "advance_to T s = fold timer_fires (due_handles T s) s"

subsection \<open>Executions of the service\<close>

text \<open>
  The service runs on one thread: between two turns of the event loop exactly one of the
  following happens to it. A call of \<open>sendRequest\<close> is one step: the method is suspended
  only at \<open>await rabbitMQ.publish(...)\<close>, the promise it waits for is settled already, and
  its continuation is a microtask that runs before any timer or any delivery from the
  broker; every caller in the repository awaits the call at once. \<open>initialize\<close> is one
  step as well: it touches neither the registry nor the promises nor the timers. A timer
  may fire at any moment here; \<open>advance_to\<close> is what the timer clock makes fire.
\<close>

datatype ('q, 'r) event =
    Initialize "unit outcome" "unit outcome"
  | SendRequest send_env string 'q "int option"
  | HandleResponse 'r int
  | TimerFires nat
  | Cleanup

fun step ::
  "('q, 'm BaseResponse_scheme) event \<Rightarrow> ('q, 'm BaseResponse_scheme) service \<Rightarrow>
     ('q, 'm BaseResponse_scheme) service" where
  "step (Initialize rq rc) s = snd (initialize rq rc s)"
| "step (SendRequest env queue request tm) s = snd (sendRequest env queue request tm s)"
| "step (HandleResponse response now) s = handleResponse response now s"
| "step (TimerFires h) s = timer_fires h s"
| "step Cleanup s = cleanup s"

text \<open>
  What is assumed of \<open>uuidv4()\<close>: the identifier it returns is not the key of an entry of
  the registry.
\<close>

fun admissible :: "('q, 'r) event \<Rightarrow> ('q, 'r) service \<Rightarrow> bool" where
  "admissible (SendRequest env queue request tm) s = (map_of (pendingRequests s) (uuid env) = None)"
| "admissible e s = True"

inductive reachable :: "('q, 'm BaseResponse_scheme) service \<Rightarrow> bool" where
  reachable_new: "reachable (new_service q)"
| reachable_step: "reachable s \<Longrightarrow> admissible e s \<Longrightarrow> reachable (step e s)"

text \<open>
  The invariant of the reachable states: every entry of the registry has its own pending
  promise and its own armed timer, every armed timer belongs to an entry, and the text of
  a timer is the digits of its delay when that is a safe integer.
\<close>

definition entries_live :: "('q, 'r) service \<Rightarrow> bool" where
  "entries_live s =
     (\<forall>k p. (k, p) \<in> set (pendingRequests s) \<longrightarrow>
        pending_requestId p = k \<and> promises s (settle p) = Some Pending \<and>
        (\<exists>t. timers s (timeout p) = Some t \<and> timer_requestId t = k \<and> timer_reject t = settle p
             \<and> timer_timeout t = delay t))"

definition timers_owned :: "('q, 'r) service \<Rightarrow> bool" where
  "timers_owned s =
     (\<forall>h t. timers s h = Some t \<longrightarrow>
        (\<exists>p. (timer_requestId t, p) \<in> set (pendingRequests s) \<and> timeout p = h))"

definition settle_inj :: "('q, 'r) service \<Rightarrow> bool" where
  "settle_inj s =
     (\<forall>k1 p1 k2 p2. (k1, p1) \<in> set (pendingRequests s) \<and> (k2, p2) \<in> set (pendingRequests s) \<and>
        settle p1 = settle p2 \<longrightarrow> k1 = k2)"

definition allocated :: "('q, 'r) service \<Rightarrow> bool" where
  "allocated s =
     ((\<forall>h. nextTimer s \<le> h \<longrightarrow> timers s h = None) \<and>
      (\<forall>p. nextPromise s \<le> p \<longrightarrow> promises s p = None))"

definition timer_texts :: "('q, 'r) service \<Rightarrow> bool" where
  "timer_texts s =
     (\<forall>h t digits. timers s h = Some t \<and> number_text (delay t) = Some digits \<longrightarrow>
        timer_text t = digits)"

definition consistent :: "('q, 'r) service \<Rightarrow> bool" where
  "consistent s =
     (distinct (map fst (pendingRequests s)) \<and> entries_live s \<and> timers_owned s \<and>
      settle_inj s \<and> allocated s \<and> timer_texts s)"

subsection \<open>A face verification, used in the examples\<close>

text \<open>\<open>interface FaceVerificationResponse extends BaseResponse\<close> of src/types/faceMessaging.types.ts.\<close>

record FaceVerificationMetadata =
  detectionTime :: "int option"
  matchedFaceId :: "string option"

record FaceVerificationData =
  verified :: bool
  confidence :: rat
  userId :: string
  distance :: "rat option"
  requiredConfidence :: rat
  metadata :: "FaceVerificationMetadata option"

record FaceVerificationResponse = BaseResponse +
  messageType :: string
  data :: FaceVerificationData

type_synonym face_service = "(string, FaceVerificationResponse) service"

definition started :: face_service where
  "started = step (Initialize (Returns ()) (Returns ())) (new_service None)"

definition call_u1 :: send_env where
  "call_u1 = \<lparr>uuid = ''c0ffee'', isoTimestamp = ''2025-01-01T00:00:00.000Z'', dateNow = 1000,
              publishOutcome = Returns True, timerClock = 70000, timeoutText = []\<rparr>"

definition waiting :: face_service where
  "waiting = step (SendRequest call_u1 ''face.verification.requests'' ''u1'' (Some 1000)) started"

definition reply_ok :: FaceVerificationResponse where
  "reply_ok =
     \<lparr>requestId = ''c0ffee'', timestamp = ''2025-01-01T00:00:00.040Z'', success = True,
      error = None, messageType = ''face.verification.response'',
      data = \<lparr>verified = True, confidence = 93 / 100, userId = ''u1'', distance = None,
              requiredConfidence = 85 / 100, metadata = None\<rparr>\<rparr>"

definition reply_failed :: "string \<Rightarrow> string \<Rightarrow> FaceVerificationResponse" where
  "reply_failed c m =
     \<lparr>requestId = ''c0ffee'', timestamp = ''2025-01-01T00:00:00.040Z'', success = False,
      error = Some \<lparr>code = c, message = m\<rparr>, messageType = ''face.verification.response'',
      data = \<lparr>verified = False, confidence = 0, userId = ''u1'', distance = None,
              requiredConfidence = 85 / 100, metadata = None\<rparr>\<rparr>"

definition waiting_200 :: face_service where
  "waiting_200 = step (SendRequest call_u1 ''face.verification.requests'' ''u1'' (Some 200)) started"

definition call_u2 :: send_env where
  "call_u2 = \<lparr>uuid = ''decaf'', isoTimestamp = ''2025-01-01T00:00:01.000Z'', dateNow = 2000,
              publishOutcome = Returns True, timerClock = 71000, timeoutText = []\<rparr>"

definition call_u3 :: send_env where
  "call_u3 = \<lparr>uuid = ''facade'', isoTimestamp = ''2025-01-01T00:00:02.000Z'', dateNow = 3000,
              publishOutcome = Returns False, timerClock = 72000, timeoutText = []\<rparr>"

definition two_waiting :: face_service where
  "two_waiting = step (SendRequest call_u2 ''face.verification.requests'' ''u2'' (Some 5000)) waiting"

definition three_waiting :: face_service where
  "three_waiting = step (SendRequest call_u3 ''face.verification.requests'' ''u3'' None) two_waiting"

text \<open>
  What the notes say of a state: at every call of the publish the identifier of the
  message was registered and its timer armed; there is one note for each call; and every
  message that was published has its note.
\<close>

definition published_when_registered :: "('q, 'r) service \<Rightarrow> bool" where
  "published_when_registered s =
     ((\<forall>n \<in> set (atPublish s). noted_entry n \<noteq> None \<and> noted_timer n \<noteq> None) \<and>
      length (atPublish s) = publishCalls s \<and>
      (\<forall>x \<in> set (published s).
         \<exists>n \<in> set (atPublish s). noted_requestId n = req_requestId (snd (snd x))))"

section \<open>The invariant of the reachable states\<close>

lemma set_delete: "set (AList.delete k al) = {x \<in> set al. fst x \<noteq> k}"
  by (auto simp: AList.delete_eq)

lemma consistent_same:
  assumes "consistent s"
    and "pendingRequests s' = pendingRequests s" and "timers s' = timers s"
    and "promises s' = promises s" and "nextTimer s' = nextTimer s"
    and "nextPromise s' = nextPromise s"
  shows "consistent s'"
  using assms
  by (simp add: consistent_def entries_live_def timers_owned_def settle_inj_def allocated_def
      timer_texts_def) blast

lemma consistent_remove:
  assumes c: "consistent s"
    and kp: "(k, p) \<in> set (pendingRequests s)"
    and reg: "pendingRequests s' = AList.delete k (pendingRequests s)"
    and tim: "timers s' = (timers s)(timeout p := None)"
    and pro: "promises s' = promises s \<or> (\<exists>v. promises s' = (promises s)(settle p \<mapsto> v))"
    and nt: "nextTimer s' = nextTimer s" and np: "nextPromise s' = nextPromise s"
  shows "consistent s'"
proof -
  from c have d: "distinct (map fst (pendingRequests s))" and el: "entries_live s"
    and ow: "timers_owned s" and inj: "settle_inj s" and al: "allocated s"
    and tx: "timer_texts s"
    by (simp_all add: consistent_def)
  have 6: "timer_texts s'"
    using tx unfolding timer_texts_def by (auto simp: tim split: if_splits)
  have sub: "\<And>k' p'. (k', p') \<in> set (pendingRequests s') \<Longrightarrow>
               (k', p') \<in> set (pendingRequests s) \<and> k' \<noteq> k"
    by (auto simp: reg set_delete)
  have other_promise: "promises s' (settle p') = promises s (settle p')"
    if "(k', p') \<in> set (pendingRequests s)" "k' \<noteq> k" for k' p'
  proof -
    from inj that kp have "settle p' \<noteq> settle p" unfolding settle_inj_def by blast
    with pro show ?thesis by auto
  qed
  have other_timer: "timeout p' \<noteq> timeout p"
    if "(k', p') \<in> set (pendingRequests s)" "k' \<noteq> k" for k' p'
  proof
    assume eq: "timeout p' = timeout p"
    from el that(1) obtain t' where t': "timers s (timeout p') = Some t'" "timer_requestId t' = k'"
      unfolding entries_live_def by blast
    from el kp obtain t where t: "timers s (timeout p) = Some t" "timer_requestId t = k"
      unfolding entries_live_def by blast
    from t t' eq that(2) show False by simp
  qed
  have 1: "distinct (map fst (pendingRequests s'))"
    using d by (simp add: reg distinct_delete)
  have 2: "entries_live s'"
    unfolding entries_live_def
  proof (intro allI impI)
    fix k' p' assume "(k', p') \<in> set (pendingRequests s')"
    then have in_s: "(k', p') \<in> set (pendingRequests s)" and ne: "k' \<noteq> k" using sub by auto
    from el in_s have "pending_requestId p' = k'" "promises s (settle p') = Some Pending"
      "\<exists>t. timers s (timeout p') = Some t \<and> timer_requestId t = k' \<and> timer_reject t = settle p'
             \<and> timer_timeout t = delay t"
      unfolding entries_live_def by blast+
    then show "pending_requestId p' = k' \<and> promises s' (settle p') = Some Pending \<and>
        (\<exists>t. timers s' (timeout p') = Some t \<and> timer_requestId t = k' \<and> timer_reject t = settle p'
             \<and> timer_timeout t = delay t)"
      using other_promise[OF in_s ne] other_timer[OF in_s ne] by (simp add: tim)
  qed
  have 3: "timers_owned s'"
    unfolding timers_owned_def
  proof (intro allI impI)
    fix h t assume a: "timers s' h = Some t"
    then have hne: "h \<noteq> timeout p" and "timers s h = Some t"
      by (auto simp: tim split: if_splits)
    with ow obtain p' where p': "(timer_requestId t, p') \<in> set (pendingRequests s)" "timeout p' = h"
      unfolding timers_owned_def by blast
    have "timer_requestId t \<noteq> k"
    proof
      assume "timer_requestId t = k"
      with p' kp d have "p' = p" by (metis eq_key_imp_eq_value)
      with p' hne show False by simp
    qed
    with p' show "\<exists>p. (timer_requestId t, p) \<in> set (pendingRequests s') \<and> timeout p = h"
      by (auto simp: reg set_delete)
  qed
  have 4: "settle_inj s'"
    using inj sub unfolding settle_inj_def by blast
  have "promises s (settle p) = Some Pending" using el kp unfolding entries_live_def by blast
  then have "settle p < nextPromise s" using al unfolding allocated_def
    by (metis not_le option.distinct(1))
  then have 5: "allocated s'"
    using al pro unfolding allocated_def by (auto simp: tim nt np)
  from 1 2 3 4 5 6 show ?thesis by (simp add: consistent_def)
qed


lemma update_fresh: "map_of al k = None \<Longrightarrow> AList.update k v al = al @ [(k, v)]"
  by (induction al) (auto split: if_splits)

lemma delete_fresh: "map_of al k = None \<Longrightarrow> AList.delete k (al @ [(k, v)]) = al"
  by (induction al) (auto simp: AList.delete_eq split: if_splits)

lemma register_fields:
  assumes "sendRequest_register env request tmo s = (fullRequest, responsePromise, s')"
  shows "responsePromise = nextPromise s"
    and "fullRequest = \<lparr>req_fields = request, req_requestId = uuid env,
                         req_timestamp = isoTimestamp env, req_replyTo = replyQueue s,
                         req_timeout = tmo\<rparr>"
    and "pendingRequests s' =
           AList.update (uuid env)
             \<lparr>settle = nextPromise s, timeout = nextTimer s, pending_requestId = uuid env,
              requestedAt = dateNow env\<rparr> (pendingRequests s)"
    and "promises s' = (promises s)(nextPromise s \<mapsto> Pending)"
    and "timers s' = (timers s)(nextTimer s \<mapsto> deadline_timer env tmo (nextPromise s))"
    and "nextPromise s' = Suc (nextPromise s)" and "nextTimer s' = Suc (nextTimer s)"
    and "isInitialized s' = isInitialized s" and "replyQueue s' = replyQueue s"
    and "published s' = published s" and "publishCalls s' = publishCalls s"
    and "console s' = console s" and "assertedQueues s' = assertedQueues s"
    and "consumers s' = consumers s" and "atPublish s' = atPublish s"
  using assms
  by (auto simp: sendRequest_register_def new_Promise_def setTimeout_def Let_def)

lemma consistent_register:
  assumes c: "consistent s" and fresh: "map_of (pendingRequests s) (uuid env) = None"
    and r: "sendRequest_register env request tmo s = (fullRequest, responsePromise, s')"
  shows "consistent s'"
proof -
  from c have d: "distinct (map fst (pendingRequests s))" and el: "entries_live s"
    and ow: "timers_owned s" and inj: "settle_inj s" and al: "allocated s"
    and tx: "timer_texts s"
    by (simp_all add: consistent_def)
  let ?p = "\<lparr>settle = nextPromise s, timeout = nextTimer s, pending_requestId = uuid env,
              requestedAt = dateNow env\<rparr>"
  note f = register_fields[OF r]
  have reg: "pendingRequests s' = pendingRequests s @ [(uuid env, ?p)]"
    by (simp add: f(3) update_fresh[OF fresh])
  have notin: "uuid env \<notin> fst ` set (pendingRequests s)"
    using fresh by (simp add: map_of_eq_None_iff)
  have old_promise: "settle p < nextPromise s" if "(k, p) \<in> set (pendingRequests s)" for k p
  proof -
    from el that have "promises s (settle p) = Some Pending" unfolding entries_live_def by blast
    with al show ?thesis unfolding allocated_def by (metis not_le option.distinct(1))
  qed
  have old_timer: "timeout p < nextTimer s" if "(k, p) \<in> set (pendingRequests s)" for k p
  proof -
    from el that obtain t where "timers s (timeout p) = Some t" unfolding entries_live_def by blast
    with al show ?thesis unfolding allocated_def by (metis not_le option.distinct(1))
  qed
  have 1: "distinct (map fst (pendingRequests s'))"
    using d notin by (simp add: reg)
  have 2: "entries_live s'"
    unfolding entries_live_def
  proof (intro allI impI)
    fix k p assume "(k, p) \<in> set (pendingRequests s')"
    then consider "(k, p) \<in> set (pendingRequests s)" | "k = uuid env" "p = ?p"
      by (auto simp: reg)
    then show "pending_requestId p = k \<and> promises s' (settle p) = Some Pending \<and>
        (\<exists>t. timers s' (timeout p) = Some t \<and> timer_requestId t = k \<and> timer_reject t = settle p
             \<and> timer_timeout t = delay t)"
    proof cases
      case 1
      from el 1 have "pending_requestId p = k" "promises s (settle p) = Some Pending"
        "\<exists>t. timers s (timeout p) = Some t \<and> timer_requestId t = k \<and> timer_reject t = settle p
             \<and> timer_timeout t = delay t"
        unfolding entries_live_def by blast+
      with old_promise[OF 1] old_timer[OF 1] show ?thesis by (simp add: f(4) f(5))
    next
      case 2
      then show ?thesis by (simp add: f(4) f(5) deadline_timer_def)
    qed
  qed
  have 3: "timers_owned s'"
    unfolding timers_owned_def
  proof (intro allI impI)
    fix h t assume a: "timers s' h = Some t"
    show "\<exists>p. (timer_requestId t, p) \<in> set (pendingRequests s') \<and> timeout p = h"
    proof (cases "h = nextTimer s")
      case True
      with a show ?thesis by (auto simp: f(5) reg deadline_timer_def)
    next
      case False
      with a have "timers s h = Some t" by (simp add: f(5))
      with ow show ?thesis unfolding timers_owned_def by (auto simp: reg)
    qed
  qed
  have 4: "settle_inj s'"
    unfolding settle_inj_def
  proof (intro allI impI, elim conjE)
    fix k1 p1 k2 p2
    assume a: "(k1, p1) \<in> set (pendingRequests s')" "(k2, p2) \<in> set (pendingRequests s')"
      "settle p1 = settle p2"
    from a(1) consider "(k1, p1) \<in> set (pendingRequests s)" | "k1 = uuid env" "p1 = ?p"
      by (auto simp: reg)
    then show "k1 = k2"
    proof cases
      case 1
      from a(2) consider "(k2, p2) \<in> set (pendingRequests s)" | "k2 = uuid env" "p2 = ?p"
        by (auto simp: reg)
      then show ?thesis
      proof cases
        case 1
        with \<open>(k1, p1) \<in> set (pendingRequests s)\<close> inj a(3) show ?thesis
          unfolding settle_inj_def by blast
      next
        case 2
        with old_promise[OF \<open>(k1, p1) \<in> set (pendingRequests s)\<close>] a(3) show ?thesis by simp
      qed
    next
      case 2
      from a(2) consider "(k2, p2) \<in> set (pendingRequests s)" | "k2 = uuid env" "p2 = ?p"
        by (auto simp: reg)
      then show ?thesis
      proof cases
        case 1
        with old_promise[OF 1] a(3) 2 show ?thesis by simp
      next
        case 2
        with \<open>k1 = uuid env\<close> show ?thesis by simp
      qed
    qed
  qed
  have 5: "allocated s'"
    using al unfolding allocated_def by (simp add: f(4) f(5) f(6) f(7))
  have 6: "timer_texts s'"
    using tx unfolding timer_texts_def
    by (auto simp: f(5) deadline_timer_def split: if_splits)
  from 1 2 3 4 5 6 show ?thesis by (simp add: consistent_def)
qed


lemma handleResponse_unknown:
  assumes "map_of (pendingRequests s) (requestId response) = None"
  shows "handleResponse response now s =
           s\<lparr>console := console s @ [ResponseReceived (requestId response) (success response),
                                      UnknownRequestId (requestId response)]\<rparr>"
  using assms by (simp add: handleResponse_def console_log_def)

lemma consistent_new_service: "consistent (new_service q)"
  by (simp add: consistent_def entries_live_def timers_owned_def settle_inj_def allocated_def
      timer_texts_def new_service_def)

lemma initialize_fields:
  "pendingRequests (snd (initialize rq rc s)) = pendingRequests s"
  "timers (snd (initialize rq rc s)) = timers s"
  "promises (snd (initialize rq rc s)) = promises s"
  "nextTimer (snd (initialize rq rc s)) = nextTimer s"
  "nextPromise (snd (initialize rq rc s)) = nextPromise s"
  by (simp_all add: initialize_def rabbitMQ_assertQueue_def rabbitMQ_consume_def console_log_def
      split: outcome.splits)

lemma consistent_initialize: "consistent s \<Longrightarrow> consistent (snd (initialize rq rc s))"
  by (rule consistent_same) (simp_all add: initialize_fields)

lemma handleResponse_fields:
  assumes "map_of (pendingRequests s) (requestId response) = Some p"
  shows "pendingRequests (handleResponse response now s) =
           AList.delete (requestId response) (pendingRequests s)"
    and "timers (handleResponse response now s) = (timers s)(timeout p := None)"
    and "promises (handleResponse response now s) =
           promises (if success response then promise_resolve (settle p) response s
                     else promise_reject (settle p)
                            (new_AppError
                               (or_number (parseInt10 (or_string (map_option code (error response)) ''500''))
                                  (Integer 500))
                               (or_string (map_option message (error response))
                                  ''Face recognition service error'')) s)"
    and "nextTimer (handleResponse response now s) = nextTimer s"
    and "nextPromise (handleResponse response now s) = nextPromise s"
    and "isInitialized (handleResponse response now s) = isInitialized s"
  using assms
  by (simp_all add: handleResponse_def console_log_def clearTimeout_def promise_resolve_def
      promise_reject_def Let_def)

lemma consistent_handleResponse:
  assumes "consistent s"
  shows "consistent (handleResponse response now s)"
proof (cases "map_of (pendingRequests s) (requestId response)")
  case None
  show ?thesis
    by (rule consistent_same[OF assms]) (simp_all add: handleResponse_unknown[OF None])
next
  case (Some p)
  note f = handleResponse_fields[OF Some]
  show ?thesis
  proof (rule consistent_remove[OF assms map_of_SomeD[OF Some]])
    show "promises (handleResponse response now s) = promises s \<or>
          (\<exists>v. promises (handleResponse response now s) = (promises s)(settle p \<mapsto> v))"
      by (auto simp: f(3) promise_resolve_def promise_reject_def)
  qed (simp_all add: f)
qed

lemma timer_fires_fields:
  assumes "timers s h = Some t"
  shows "pendingRequests (timer_fires h s) = AList.delete (timer_requestId t) (pendingRequests s)"
    and "timers (timer_fires h s) = (timers s)(h := None)"
    and "promises (timer_fires h s) =
           promises (promise_reject (timer_reject t)
                       (AppError 504 (timeout_message (timer_text t) (timer_requestId t))) s)"
    and "nextTimer (timer_fires h s) = nextTimer s"
    and "nextPromise (timer_fires h s) = nextPromise s"
    and "isInitialized (timer_fires h s) = isInitialized s"
  using assms
  by (simp_all add: timer_fires_def promise_reject_def Let_def)

lemma timer_fires_unarmed: "timers s h = None \<Longrightarrow> timer_fires h s = s"
  by (simp add: timer_fires_def)

lemma armed_timer_entry:
  assumes c: "consistent s" and t: "timers s h = Some t"
  obtains p where "(timer_requestId t, p) \<in> set (pendingRequests s)" "timeout p = h"
    "settle p = timer_reject t" "promises s (settle p) = Some Pending"
    "map_of (pendingRequests s) (timer_requestId t) = Some p"
proof -
  from c have d: "distinct (map fst (pendingRequests s))" and el: "entries_live s"
    and ow: "timers_owned s"
    by (simp_all add: consistent_def)
  from ow t obtain p where p: "(timer_requestId t, p) \<in> set (pendingRequests s)" "timeout p = h"
    unfolding timers_owned_def by blast
  from el p(1) obtain t' where "timers s (timeout p) = Some t'" "timer_reject t' = settle p"
    and pend: "promises s (settle p) = Some Pending"
    unfolding entries_live_def by blast
  with t p(2) have "settle p = timer_reject t" by simp
  moreover from d p(1) have "map_of (pendingRequests s) (timer_requestId t) = Some p" by simp
  ultimately show ?thesis using p pend that by blast
qed

lemma consistent_timer_fires:
  assumes c: "consistent s"
  shows "consistent (timer_fires h s)"
proof (cases "timers s h")
  case None
  then show ?thesis using c by (simp add: timer_fires_unarmed)
next
  case (Some t)
  note f = timer_fires_fields[OF Some]
  from armed_timer_entry[OF c Some] obtain p where
    p: "(timer_requestId t, p) \<in> set (pendingRequests s)" "timeout p = h"
       "settle p = timer_reject t"
    by blast
  show ?thesis
  proof (rule consistent_remove[OF c p(1)])
    show "promises (timer_fires h s) = promises s \<or>
          (\<exists>v. promises (timer_fires h s) = (promises s)(settle p \<mapsto> v))"
      by (auto simp: f(3) p(3) promise_reject_def)
  qed (simp_all add: f p(2))
qed


lemma sendRequest_not_initialized:
  "\<not> isInitialized s \<Longrightarrow>
     sendRequest env queue request tm s = (Inl (AppError 500 not_initialized_message), s)"
  by (simp add: sendRequest_def)

lemma sendRequest_returns:
  assumes "isInitialized s" and "publishOutcome env = Returns b"
  shows "sendRequest env queue request tm s =
           (Inr (nextPromise s),
            s\<lparr>promises := (promises s)(nextPromise s \<mapsto> Pending),
              nextPromise := Suc (nextPromise s),
              timers := (timers s)(nextTimer s \<mapsto>
                 deadline_timer env (case tm of None \<Rightarrow> 30000 | Some t \<Rightarrow> t) (nextPromise s)),
              nextTimer := Suc (nextTimer s),
              pendingRequests :=
                 AList.update (uuid env)
                   \<lparr>settle = nextPromise s, timeout = nextTimer s, pending_requestId = uuid env,
                    requestedAt = dateNow env\<rparr> (pendingRequests s),
              publishCalls := Suc (publishCalls s),
              atPublish := atPublish s @
                 [\<lparr>noted_requestId = uuid env,
                   noted_entry = Some \<lparr>settle = nextPromise s, timeout = nextTimer s,
                                       pending_requestId = uuid env, requestedAt = dateNow env\<rparr>,
                   noted_timer = Some (deadline_timer env (case tm of None \<Rightarrow> 30000 | Some t \<Rightarrow> t)
                                         (nextPromise s))\<rparr>],
              published := published s @
                 [([], queue, \<lparr>req_fields = request, req_requestId = uuid env,
                     req_timestamp = isoTimestamp env, req_replyTo = replyQueue s,
                     req_timeout = (case tm of None \<Rightarrow> 30000 | Some t \<Rightarrow> t)\<rparr>)],
              console := console s @ [RequestSent queue (uuid env)]\<rparr>)"
  using assms
  by (simp add: sendRequest_def sendRequest_register_def new_Promise_def setTimeout_def
      rabbitMQ_publish_def sendRequest_published_def console_log_def Let_def
      AList.update_conv')

lemma sendRequest_throws:
  assumes "isInitialized s" and "publishOutcome env = Throws e"
  shows "sendRequest env queue request tm s =
           (Inl (AppError 503 (publish_failed_message queue e)),
            s\<lparr>promises := (promises s)(nextPromise s \<mapsto> Pending),
              nextPromise := Suc (nextPromise s),
              timers := (timers s)(nextTimer s := None),
              nextTimer := Suc (nextTimer s),
              pendingRequests := AList.delete (uuid env) (pendingRequests s),
              publishCalls := Suc (publishCalls s),
              atPublish := atPublish s @
                 [\<lparr>noted_requestId = uuid env,
                   noted_entry = Some \<lparr>settle = nextPromise s, timeout = nextTimer s,
                                       pending_requestId = uuid env, requestedAt = dateNow env\<rparr>,
                   noted_timer = Some (deadline_timer env (case tm of None \<Rightarrow> 30000 | Some t \<Rightarrow> t)
                                         (nextPromise s))\<rparr>]\<rparr>)"
  using assms
  by (simp add: sendRequest_def sendRequest_register_def new_Promise_def setTimeout_def
      rabbitMQ_publish_def sendRequest_published_def clearTimeout_def Let_def
      AList.update_conv' AList.delete_update_same)

lemma consistent_sendRequest:
  assumes c: "consistent s" and fresh: "map_of (pendingRequests s) (uuid env) = None"
  shows "consistent (snd (sendRequest env queue request tm s))"
proof (cases "isInitialized s")
  case False
  then show ?thesis using c by (simp add: sendRequest_not_initialized)
next
  case True
  obtain fullRequest responsePromise s1 where
    r: "sendRequest_register env request (case tm of None \<Rightarrow> 30000 | Some t \<Rightarrow> t) s =
          (fullRequest, responsePromise, s1)"
    by (metis prod_cases3)
  have c1: "consistent s1" by (rule consistent_register[OF c fresh r])
  note f = register_fields[OF r]
  have "pendingRequests s1 = pendingRequests s @
          [(uuid env, \<lparr>settle = nextPromise s, timeout = nextTimer s, pending_requestId = uuid env,
              requestedAt = dateNow env\<rparr>)]"
    by (simp add: f(3) update_fresh[OF fresh])
  then have mem: "(uuid env, \<lparr>settle = nextPromise s, timeout = nextTimer s,
      pending_requestId = uuid env, requestedAt = dateNow env\<rparr>) \<in> set (pendingRequests s1)"
    by simp
  show ?thesis
  proof (cases "publishOutcome env")
    case (Returns b)
    show ?thesis
      by (rule consistent_same[OF c1])
         (simp_all add: sendRequest_returns[OF True Returns] f)
  next
    case (Throws e)
    show ?thesis
      by (rule consistent_remove[OF c1 mem])
         (simp_all add: sendRequest_throws[OF True Throws] f AList.delete_update_same)
  qed
qed

lemma promise_reject_fields:
  "promises (promise_reject p e s) q =
     (if q = p \<and> promises s p = Some Pending then Some (Rejected e) else promises s q)"
  "pendingRequests (promise_reject p e s) = pendingRequests s"
  "timers (promise_reject p e s) = timers s"
  "nextTimer (promise_reject p e s) = nextTimer s"
  "nextPromise (promise_reject p e s) = nextPromise s"
  "isInitialized (promise_reject p e s) = isInitialized s"
  "replyQueue (promise_reject p e s) = replyQueue s"
  "console (promise_reject p e s) = console s"
  "published (promise_reject p e s) = published s"
  "publishCalls (promise_reject p e s) = publishCalls s"
  "assertedQueues (promise_reject p e s) = assertedQueues s"
  "consumers (promise_reject p e s) = consumers s"
  "atPublish (promise_reject p e s) = atPublish s"
  by (simp_all add: promise_reject_def)

lemma clearTimeout_fields:
  "timers (clearTimeout h s) h' = (if h' = h then None else timers s h')"
  "promises (clearTimeout h s) = promises s"
  "pendingRequests (clearTimeout h s) = pendingRequests s"
  "nextTimer (clearTimeout h s) = nextTimer s"
  "nextPromise (clearTimeout h s) = nextPromise s"
  "isInitialized (clearTimeout h s) = isInitialized s"
  "replyQueue (clearTimeout h s) = replyQueue s"
  "console (clearTimeout h s) = console s"
  "published (clearTimeout h s) = published s"
  "publishCalls (clearTimeout h s) = publishCalls s"
  "assertedQueues (clearTimeout h s) = assertedQueues s"
  "consumers (clearTimeout h s) = consumers s"
  "atPublish (clearTimeout h s) = atPublish s"
  by (simp_all add: clearTimeout_def)

lemma cleanup_loop_registry:
  "pendingRequests (cleanup_loop es s) =
     filter (\<lambda>x. fst x \<notin> fst ` set es) (pendingRequests s)"
proof (induction es arbitrary: s)
  case Nil
  show ?case by simp
next
  case (Cons e es)
  obtain rid pending where e: "e = (rid, pending)" by (cases e)
  show ?case
    by (simp add: e Cons.IH Let_def promise_reject_fields clearTimeout_fields AList.delete_eq)
       (rule filter_cong, auto)
qed

lemma cleanup_loop_timers:
  "timers (cleanup_loop es s) h =
     (if h \<in> (timeout \<circ> snd) ` set es then None else timers s h)"
proof (induction es arbitrary: s)
  case Nil
  show ?case by simp
next
  case (Cons e es)
  obtain rid pending where e: "e = (rid, pending)" by (cases e)
  show ?case
    by (simp add: e Cons.IH Let_def promise_reject_fields clearTimeout_fields)
qed

lemma cleanup_loop_promises:
  "promises (cleanup_loop es s) q =
     (if q \<in> (settle \<circ> snd) ` set es \<and> promises s q = Some Pending
      then Some (Rejected (AppError 503 ''Service shutting down'')) else promises s q)"
proof (induction es arbitrary: s)
  case Nil
  show ?case by simp
next
  case (Cons e es)
  obtain rid pending where e: "e = (rid, pending)" by (cases e)
  show ?case
    by (auto simp: e Cons.IH Let_def promise_reject_fields clearTimeout_fields)
qed

lemma cleanup_loop_other:
  "nextTimer (cleanup_loop es s) = nextTimer s"
  "nextPromise (cleanup_loop es s) = nextPromise s"
  "isInitialized (cleanup_loop es s) = isInitialized s"
  "replyQueue (cleanup_loop es s) = replyQueue s"
  "console (cleanup_loop es s) = console s"
  "published (cleanup_loop es s) = published s"
  "publishCalls (cleanup_loop es s) = publishCalls s"
  "assertedQueues (cleanup_loop es s) = assertedQueues s"
  "consumers (cleanup_loop es s) = consumers s"
  "atPublish (cleanup_loop es s) = atPublish s"
  by (induction es s rule: cleanup_loop.induct)
     (simp_all add: Let_def promise_reject_fields clearTimeout_fields)

lemma cleanup_fields:
  "pendingRequests (cleanup s) = []"
  "timers (cleanup s) h =
     (if h \<in> (timeout \<circ> snd) ` set (pendingRequests s) then None else timers s h)"
  "promises (cleanup s) q =
     (if q \<in> (settle \<circ> snd) ` set (pendingRequests s) \<and> promises s q = Some Pending
      then Some (Rejected (AppError 503 ''Service shutting down'')) else promises s q)"
  "nextTimer (cleanup s) = nextTimer s"
  "nextPromise (cleanup s) = nextPromise s"
  "isInitialized (cleanup s) = False"
  "replyQueue (cleanup s) = replyQueue s"
  "console (cleanup s) = console s @ [CleaningUp (length (pendingRequests s)), CleanupDone]"
  "published (cleanup s) = published s"
  "publishCalls (cleanup s) = publishCalls s"
  "assertedQueues (cleanup s) = assertedQueues s"
  "consumers (cleanup s) = consumers s"
  "atPublish (cleanup s) = atPublish s"
  by (simp_all add: cleanup_def Let_def console_log_def cleanup_loop_registry
      cleanup_loop_timers cleanup_loop_promises cleanup_loop_other)

lemma consistent_cleanup:
  assumes c: "consistent s"
  shows "consistent (cleanup s)"
proof -
  from c have al: "allocated s" and ow: "timers_owned s" by (simp_all add: consistent_def)
  have "timers (cleanup s) h = None" for h
  proof (cases "timers s h")
    case None
    then show ?thesis by (simp add: cleanup_fields)
  next
    case (Some t)
    with ow obtain p where "(timer_requestId t, p) \<in> set (pendingRequests s)" "timeout p = h"
      unfolding timers_owned_def by blast
    then have "h \<in> (timeout \<circ> snd) ` set (pendingRequests s)" by force
    then show ?thesis by (simp add: cleanup_fields)
  qed
  moreover have "promises (cleanup s) p = None" if "nextPromise s \<le> p" for p
    using al that unfolding allocated_def by (simp add: cleanup_fields)
  ultimately show ?thesis
    by (simp add: consistent_def entries_live_def timers_owned_def settle_inj_def allocated_def
        timer_texts_def cleanup_fields(1,4,5))
qed

lemma reachable_consistent: "reachable s \<Longrightarrow> consistent s"
proof (induction rule: reachable.induct)
  case (reachable_new q)
  show ?case by (rule consistent_new_service)
next
  case (reachable_step s e)
  then show ?case
    by (cases e)
       (simp_all add: consistent_initialize consistent_sendRequest consistent_handleResponse
          consistent_timer_fires consistent_cleanup)
qed

section \<open>The example states\<close>

lemma started_fields:
  "isInitialized started" "pendingRequests started = []" "nextPromise started = 0"
  "nextTimer started = 0" "replyQueue started = ''face.replies''"
  "promises started = (\<lambda>p. None)" "timers started = (\<lambda>h. None)"
  "published started = []" "publishCalls started = 0"
  by (simp_all add: started_def initialize_def rabbitMQ_assertQueue_def rabbitMQ_consume_def
      console_log_def new_service_def)

lemma reachable_started: "reachable started"
  unfolding started_def by (intro reachable_step reachable_new) simp

lemma waiting_fields:
  "isInitialized waiting"
  "pendingRequests waiting =
     [(''c0ffee'', \<lparr>settle = 0, timeout = 0, pending_requestId = ''c0ffee'', requestedAt = 1000\<rparr>)]"
  "promises waiting = (\<lambda>p. None)(0 \<mapsto> Pending)"
  "timers waiting = (\<lambda>h. None)(0 \<mapsto> deadline_timer call_u1 1000 0)"
  "nextPromise waiting = 1" "nextTimer waiting = 1"
  "published waiting =
     [([], ''face.verification.requests'',
       \<lparr>req_fields = ''u1'', req_requestId = ''c0ffee'',
        req_timestamp = ''2025-01-01T00:00:00.000Z'', req_replyTo = ''face.replies'',
        req_timeout = 1000\<rparr>)]"
  by (simp_all add: waiting_def call_u1_def started_fields
      sendRequest_returns[where b = True])

lemma reachable_waiting: "reachable waiting"
  unfolding waiting_def
  by (intro reachable_step reachable_started) (simp add: started_fields)

section \<open>Replies\<close>

lemma handleResponse_removes:
  "map_of (pendingRequests (handleResponse response now s)) (requestId response) = None"
proof (cases "map_of (pendingRequests s) (requestId response)")
  case None
  then show ?thesis by (simp add: handleResponse_unknown)
next
  case (Some p)
  then show ?thesis by (simp add: handleResponse_fields AList.delete_conv')
qed

lemma handleResponse_known_success:
  assumes "map_of (pendingRequests s) (requestId response) = Some p"
    and "promises s (settle p) = Some Pending" and "success response"
  shows "handleResponse response now s =
           s\<lparr>console := console s @ [ResponseReceived (requestId response) True,
                                      ResponseTime (now - requestedAt p) (requestId response)],
             timers := (timers s)(timeout p := None),
             pendingRequests := AList.delete (requestId response) (pendingRequests s),
             promises := (promises s)(settle p \<mapsto> Fulfilled response)\<rparr>"
  using assms
  by (simp add: handleResponse_def console_log_def clearTimeout_def promise_resolve_def Let_def)

lemma handleResponse_known_failure:
  assumes "map_of (pendingRequests s) (requestId response) = Some p"
    and "promises s (settle p) = Some Pending" and "\<not> success response"
  shows "handleResponse response now s =
           s\<lparr>console := console s @ [ResponseReceived (requestId response) False,
                                      ResponseTime (now - requestedAt p) (requestId response)],
             timers := (timers s)(timeout p := None),
             pendingRequests := AList.delete (requestId response) (pendingRequests s),
             promises := (promises s)(settle p \<mapsto> Rejected (new_AppError
                (or_number (parseInt10 (or_string (map_option code (error response)) ''500''))
                   (Integer 500))
                (or_string (map_option message (error response)) ''Face recognition service error'')))\<rparr>"
  using assms
  by (simp add: handleResponse_def console_log_def clearTimeout_def promise_reject_def Let_def)

lemma answered_fields:
  "pendingRequests (handleResponse reply_ok 1040 waiting) = []"
  "promises (handleResponse reply_ok 1040 waiting) = (\<lambda>p. None)(0 \<mapsto> Fulfilled reply_ok)"
  "timers (handleResponse reply_ok 1040 waiting) = (\<lambda>h. None)"
  "console (handleResponse reply_ok 1040 waiting) =
     console waiting @ [ResponseReceived ''c0ffee'' True, ResponseTime 40 ''c0ffee'']"
proof -
  have m: "map_of (pendingRequests waiting) (requestId reply_ok) =
      Some \<lparr>settle = 0, timeout = 0, pending_requestId = ''c0ffee'', requestedAt = 1000\<rparr>"
    by (simp add: waiting_fields reply_ok_def)
  have p: "promises waiting (settle \<lparr>settle = 0, timeout = 0, pending_requestId = ''c0ffee'',
      requestedAt = 1000\<rparr>) = Some Pending"
    by (simp add: waiting_fields)
  have ok: "success reply_ok" by (simp add: reply_ok_def)
  note e = handleResponse_known_success[OF m p ok, of 1040]
  show "pendingRequests (handleResponse reply_ok 1040 waiting) = []"
    by (simp add: e) (simp add: waiting_fields reply_ok_def)
  show "promises (handleResponse reply_ok 1040 waiting) = (\<lambda>p. None)(0 \<mapsto> Fulfilled reply_ok)"
    by (simp add: e) (simp add: waiting_fields)
  show "timers (handleResponse reply_ok 1040 waiting) = (\<lambda>h. None)"
    by (simp add: e) (simp add: waiting_fields)
  show "console (handleResponse reply_ok 1040 waiting) =
     console waiting @ [ResponseReceived ''c0ffee'' True, ResponseTime 40 ''c0ffee'']"
    by (simp add: e) (simp add: reply_ok_def)
qed

text \<open>
  Claim C3. A response whose \<open>requestId\<close> is not a key of the registry changes nothing but
  the console: \<open>handleResponse\<close> writes the received line and a warning and returns; the
  registry, its size as \<open>getStats\<close> reports it, the promises and the timers are as before.
  (\<open>handleResponse\<close> has no statement that throws, so it is a function on states.) After any
  response for an identifier, that identifier is not registered, whether it was before or
  not: a second response for it is such a no-op.
\<close>

theorem unknown_correlation_id_is_harmless:
  fixes s :: "('q, 'm BaseResponse_scheme) service"
  assumes "map_of (pendingRequests s) (requestId response) = None"
  shows "handleResponse response now s =
           s\<lparr>console := console s @ [ResponseReceived (requestId response) (success response),
                                      UnknownRequestId (requestId response)]\<rparr>
       \<and> level (UnknownRequestId (requestId response)) = Warn
       \<and> getStats (handleResponse response now s) = getStats s
       \<and> pendingRequests (handleResponse response now s) = pendingRequests s
       \<and> promises (handleResponse response now s) = promises s
       \<and> timers (handleResponse response now s) = timers s
       \<and> (\<forall>first now1. \<forall>s0 :: ('q, 'm BaseResponse_scheme) service.
             requestId first = requestId response \<longrightarrow>
             handleResponse response now (handleResponse first now1 s0) =
               (handleResponse first now1 s0)
                 \<lparr>console := console (handleResponse first now1 s0) @
                     [ResponseReceived (requestId response) (success response),
                      UnknownRequestId (requestId response)]\<rparr>)"
proof -
  have 1: "handleResponse response now s =
           s\<lparr>console := console s @ [ResponseReceived (requestId response) (success response),
                                      UnknownRequestId (requestId response)]\<rparr>"
    by (rule handleResponse_unknown[OF assms])
  have 2: "handleResponse response now (handleResponse first now1 s0) =
               (handleResponse first now1 s0)
                 \<lparr>console := console (handleResponse first now1 s0) @
                     [ResponseReceived (requestId response) (success response),
                      UnknownRequestId (requestId response)]\<rparr>"
    if "requestId first = requestId response" for first :: "'m BaseResponse_scheme" and now1
      and s0 :: "('q, 'm BaseResponse_scheme) service"
  proof (rule handleResponse_unknown)
    show "map_of (pendingRequests (handleResponse first now1 s0)) (requestId response) = None"
      using handleResponse_removes[of first now1 s0] that by simp
  qed
  from 1 2 show ?thesis by (simp add: getStats_def)
qed

theorem unknown_correlation_id_is_harmless_witness:
  "map_of (pendingRequests (handleResponse reply_ok 1040 waiting)) (requestId reply_ok) = None
   \<and> handleResponse reply_ok 1050 (handleResponse reply_ok 1040 waiting) =
       (handleResponse reply_ok 1040 waiting)
         \<lparr>console := console (handleResponse reply_ok 1040 waiting) @
             [ResponseReceived ''c0ffee'' True, UnknownRequestId ''c0ffee'']\<rparr>
   \<and> promises (handleResponse reply_ok 1050 (handleResponse reply_ok 1040 waiting)) 0 =
       Some (Fulfilled reply_ok)"
proof -
  have h: "map_of (pendingRequests (handleResponse reply_ok 1040 waiting)) (requestId reply_ok) = None"
    by (simp add: answered_fields)
  note t = unknown_correlation_id_is_harmless[OF h, of 1050]
  from t have a: "handleResponse reply_ok 1050 (handleResponse reply_ok 1040 waiting) =
       (handleResponse reply_ok 1040 waiting)
         \<lparr>console := console (handleResponse reply_ok 1040 waiting) @
             [ResponseReceived (requestId reply_ok) (success reply_ok),
              UnknownRequestId (requestId reply_ok)]\<rparr>"
    by (rule conjunct1)
  have b: "requestId reply_ok = ''c0ffee''" "success reply_ok" by (simp_all add: reply_ok_def)
  from h a b show ?thesis by (simp add: answered_fields)
qed

lemma registered_is_live:
  assumes "reachable s" and "map_of (pendingRequests s) k = Some p"
  shows "promises s (settle p) = Some Pending"
    and "\<exists>t. timers s (timeout p) = Some t \<and> timer_requestId t = k \<and> timer_reject t = settle p
           \<and> timer_timeout t = delay t"
    and "pending_requestId p = k"
proof -
  from assms(1) have "entries_live s"
    using reachable_consistent by (auto simp: consistent_def)
  moreover from assms(2) have "(k, p) \<in> set (pendingRequests s)" by (rule map_of_SomeD)
  ultimately show "promises s (settle p) = Some Pending"
    and "\<exists>t. timers s (timeout p) = Some t \<and> timer_requestId t = k \<and> timer_reject t = settle p
           \<and> timer_timeout t = delay t"
    and "pending_requestId p = k"
    unfolding entries_live_def by blast+
qed

lemma sendRequest_then_success:
  fixes s0 :: "('q, 'm BaseResponse_scheme) service"
  assumes "isInitialized s0" and "publishOutcome env = Returns b"
    and "uuid env = requestId response" and "success response"
  shows "\<exists>s1. sendRequest env queue request tm s0 = (Inr (nextPromise s0), s1) \<and>
           promises (handleResponse response now s1) (nextPromise s0) = Some (Fulfilled response)"
proof -
  let ?p = "\<lparr>settle = nextPromise s0, timeout = nextTimer s0, pending_requestId = uuid env,
             requestedAt = dateNow env\<rparr>"
  obtain s1 where s1: "sendRequest env queue request tm s0 = (Inr (nextPromise s0), s1)"
    and reg: "pendingRequests s1 = AList.update (uuid env) ?p (pendingRequests s0)"
    and pro: "promises s1 = (promises s0)(nextPromise s0 \<mapsto> Pending)"
    using sendRequest_returns[OF assms(1,2), of queue request tm] by simp
  have m: "map_of (pendingRequests s1) (requestId response) = Some ?p"
    by (simp add: reg AList.update_conv' assms(3))
  have "promises s1 (settle ?p) = Some Pending" by (simp add: pro)
  from handleResponse_known_success[OF m this assms(4), of now]
  have "promises (handleResponse response now s1) (nextPromise s0) = Some (Fulfilled response)"
    by simp
  with s1 show ?thesis by blast
qed

lemma parseInt10_examples:
  "parseInt10 ''404'' = Some (Integer 404)" "parseInt10 ''FACE_NOT_FOUND'' = None"
  "parseInt10 ''E_FACE'' = None" "parseInt10 ''500'' = Some (Integer 500)"
  "parseInt10 [] = None"
  by (simp_all add: parseInt10_def isWhiteSpace_def isDigit_def digitValue_def
      round_to_double_def)

lemma or_number_code:
  "or_number (parseInt10 (or_string (Some c) ''500'')) (Integer 500) =
     (case parseInt10 c of None \<Rightarrow> Integer 500
      | Some n \<Rightarrow> if n = Integer 0 then Integer 500 else n)"
proof (cases "c = []")
  case True
  then show ?thesis
    by (simp add: or_string_def or_number_def parseInt10_examples)
next
  case False
  then show ?thesis by (simp add: or_string_def or_number_def)
qed

lemma remote_failure_value:
  fixes s :: "('q, 'm BaseResponse_scheme) service"
  assumes "reachable s" and "map_of (pendingRequests s) (requestId response) = Some p"
    and "\<not> success response"
  shows "promises (handleResponse response now s) (settle p) =
           Some (Rejected (new_AppError
             (or_number (parseInt10 (or_string (map_option code (error response)) ''500''))
                (Integer 500))
             (or_string (map_option message (error response)) ''Face recognition service error'')))"
    and "timers (handleResponse response now s) (timeout p) = None"
proof -
  have live: "promises s (settle p) = Some Pending"
    by (rule registered_is_live(1)[OF assms(1,2)])
  note e = handleResponse_known_failure[OF assms(2) live assms(3), of now]
  show "promises (handleResponse response now s) (settle p) =
           Some (Rejected (new_AppError
             (or_number (parseInt10 (or_string (map_option code (error response)) ''500''))
                (Integer 500))
             (or_string (map_option message (error response)) ''Face recognition service error'')))"
    by (simp add: e)
  show "timers (handleResponse response now s) (timeout p) = None"
    by (simp add: e)
qed

lemma waiting_entry:
  "map_of (pendingRequests waiting) (requestId (reply_failed c m)) =
       Some \<lparr>settle = 0, timeout = 0, pending_requestId = ''c0ffee'', requestedAt = 1000\<rparr>"
  "\<not> success (reply_failed c m)"
  "error (reply_failed c m) = Some \<lparr>code = c, message = m\<rparr>"
  by (simp_all add: waiting_fields reply_failed_def)

text \<open>
  Claim C10, as stated, fails in its last words: with a code that \<open>parseInt\<close> cannot read
  and an empty message, the message of the error is not the remote's but the default one.
\<close>

theorem unparseable_code_message_kept_counterexample:
  "parseInt10 ''E_FACE'' = None
   \<and> message \<lparr>code = ''E_FACE'', message = []\<rparr> = []
   \<and> promises (handleResponse (reply_failed ''E_FACE'' []) 1040 waiting) 0 =
       Some (Rejected (AppError 500 ''Face recognition service error''))"
proof -
  from remote_failure_value(1)[OF reachable_waiting waiting_entry(1,2), of "''E_FACE''" "[]" 1040]
  have "promises (handleResponse (reply_failed ''E_FACE'' []) 1040 waiting) 0 =
     Some (Rejected (AppError 500 ''Face recognition service error''))"
    by (simp add: waiting_entry(3) or_number_code parseInt10_examples or_string_def or_number_def)
  then show ?thesis by (simp add: parseInt10_examples)
qed

text \<open>
  Claim C10, amended. In a reachable state, for a registered identifier and a response
  with \<open>success: false\<close>: without an \<open>error\<close> object the promise of the entry is rejected
  with code 500 and message \<open>Face recognition service error\<close>; with an \<open>error\<close> object
  whose code \<open>parseInt(code, 10)\<close> cannot read, it is rejected with code 500 and the remote
  message when that is not empty, and the same default message when it is empty.
\<close>

theorem remote_failure_fallbacks:
  fixes s :: "('q, 'm BaseResponse_scheme) service"
  assumes "reachable s" and "map_of (pendingRequests s) (requestId response) = Some p"
    and "\<not> success response"
  shows "(error response = None \<longrightarrow>
            promises (handleResponse response now s) (settle p) =
              Some (Rejected (AppError 500 ''Face recognition service error'')))
       \<and> (\<forall>e. error response = Some e \<and> parseInt10 (code e) = None \<longrightarrow>
            promises (handleResponse response now s) (settle p) =
              Some (Rejected (AppError 500
                (if message e = [] then ''Face recognition service error'' else message e))))"
proof (intro conjI allI impI)
  assume "error response = None"
  with remote_failure_value(1)[OF assms, of now]
  show "promises (handleResponse response now s) (settle p) =
          Some (Rejected (AppError 500 ''Face recognition service error''))"
    by (simp add: or_string_def or_number_def parseInt10_examples)
next
  fix e assume "error response = Some e \<and> parseInt10 (code e) = None"
  with remote_failure_value(1)[OF assms, of now]
  show "promises (handleResponse response now s) (settle p) =
          Some (Rejected (AppError 500
            (if message e = [] then ''Face recognition service error'' else message e)))"
    by (simp add: or_number_code) (simp add: or_string_def)
qed

theorem remote_failure_fallbacks_witness:
  "reachable waiting
   \<and> map_of (pendingRequests waiting) (requestId (reply_ok\<lparr>success := False\<rparr>)) =
       Some \<lparr>settle = 0, timeout = 0, pending_requestId = ''c0ffee'', requestedAt = 1000\<rparr>
   \<and> \<not> success (reply_ok\<lparr>success := False\<rparr>)
   \<and> error (reply_ok\<lparr>success := False\<rparr>) = None
   \<and> promises (handleResponse (reply_ok\<lparr>success := False\<rparr>) 1040 waiting) 0 =
       Some (Rejected (AppError 500 ''Face recognition service error''))
   \<and> parseInt10 ''E_FACE'' = None
   \<and> promises (handleResponse (reply_failed ''E_FACE'' ''no face in the image'') 1040 waiting) 0 =
       Some (Rejected (AppError 500 ''no face in the image''))"
proof -
  have m: "map_of (pendingRequests waiting) (requestId (reply_ok\<lparr>success := False\<rparr>)) =
       Some \<lparr>settle = 0, timeout = 0, pending_requestId = ''c0ffee'', requestedAt = 1000\<rparr>"
    and f: "\<not> success (reply_ok\<lparr>success := False\<rparr>)"
    and n: "error (reply_ok\<lparr>success := False\<rparr>) = None"
    by (simp_all add: waiting_fields reply_ok_def)
  from remote_failure_fallbacks[OF reachable_waiting m f, of 1040] n
  have 1: "promises (handleResponse (reply_ok\<lparr>success := False\<rparr>) 1040 waiting) 0 =
       Some (Rejected (AppError 500 ''Face recognition service error''))"
    by simp
  from remote_failure_fallbacks[OF reachable_waiting waiting_entry(1,2),
      of "''E_FACE''" "''no face in the image''" 1040]
  have 2: "promises (handleResponse (reply_failed ''E_FACE'' ''no face in the image'') 1040 waiting) 0 =
       Some (Rejected (AppError 500 ''no face in the image''))"
    by (simp add: waiting_entry(3) parseInt10_examples)
  from reachable_waiting m f n 1 2 show ?thesis by (simp add: parseInt10_examples)
qed

section \<open>Sending\<close>

lemma register_result:
  "sendRequest_register env request tmo s =
     (\<lparr>req_fields = request, req_requestId = uuid env, req_timestamp = isoTimestamp env,
       req_replyTo = replyQueue s, req_timeout = tmo\<rparr>,
      nextPromise s,
      s\<lparr>promises := (promises s)(nextPromise s \<mapsto> Pending),
        nextPromise := Suc (nextPromise s),
        timers := (timers s)(nextTimer s \<mapsto> deadline_timer env tmo (nextPromise s)),
        nextTimer := Suc (nextTimer s),
        pendingRequests :=
           AList.update (uuid env)
             \<lparr>settle = nextPromise s, timeout = nextTimer s, pending_requestId = uuid env,
              requestedAt = dateNow env\<rparr> (pendingRequests s)\<rparr>)"
  by (simp add: sendRequest_register_def new_Promise_def setTimeout_def Let_def)

lemma unallocated:
  assumes "reachable s"
  shows "timers s (nextTimer s) = None" and "promises s (nextPromise s) = None"
proof -
  from assms have "allocated s" using reachable_consistent by (auto simp: consistent_def)
  then show "timers s (nextTimer s) = None" and "promises s (nextPromise s) = None"
    by (simp_all add: allocated_def)
qed

text \<open>
  Claim C6. In a reachable, initialized state, when the publish throws, \<open>sendRequest\<close>
  rejects with \<open>AppError(503, ...)\<close>, the transport error of the service. The entry that
  it had stored for the call is gone and the timer it had armed is disarmed: the registry
  and the armed timers are those from before the call. The transport was called once and
  nothing was published. (The identifier is one that \<open>uuidv4\<close> returns: not a key of the
  registry.)
\<close>

theorem publish_failure_unregisters:
  fixes s :: "('q, 'm BaseResponse_scheme) service"
  assumes "reachable s" and "isInitialized s"
    and "map_of (pendingRequests s) (uuid env) = None"
    and "publishOutcome env = Throws e"
  shows "\<exists>s'. sendRequest env queue request tm s =
                (Inl (AppError 503 (publish_failed_message queue e)), s')
            \<and> map_of (pendingRequests
                 (snd (snd (sendRequest_register env request
                    (case tm of None \<Rightarrow> 30000 | Some t \<Rightarrow> t) s)))) (uuid env) \<noteq> None
            \<and> pendingRequests s' = pendingRequests s
            \<and> getStats s' = getStats s
            \<and> timers s' = timers s
            \<and> timers s' (nextTimer s) = None
            \<and> published s' = published s
            \<and> publishCalls s' = Suc (publishCalls s)"
proof -
  let ?s' = "snd (sendRequest env queue request tm s)"
  note t = sendRequest_throws[OF assms(2,4), of queue request tm]
  have notin: "uuid env \<notin> fst ` set (pendingRequests s)"
    using assms(3) by (simp add: map_of_eq_None_iff)
  have 1: "sendRequest env queue request tm s =
             (Inl (AppError 503 (publish_failed_message queue e)), ?s')"
    by (simp add: t)
  have 2: "map_of (pendingRequests (snd (snd (sendRequest_register env request
             (case tm of None \<Rightarrow> 30000 | Some t \<Rightarrow> t) s)))) (uuid env) \<noteq> None"
    by (simp add: register_result AList.update_conv')
  have 3: "pendingRequests ?s' = pendingRequests s"
    using notin by (simp add: t)
  have 4: "timers ?s' = timers s"
  proof -
    have "timers s (nextTimer s) = None" by (rule unallocated(1)[OF assms(1)])
    then have "(timers s)(nextTimer s := None) = timers s" by (rule fun_upd_idem)
    then show ?thesis by (simp add: t)
  qed
  have 5: "timers ?s' (nextTimer s) = None" by (simp add: t)
  have 6: "published ?s' = published s" "publishCalls ?s' = Suc (publishCalls s)"
    "isInitialized ?s' = isInitialized s" "replyQueue ?s' = replyQueue s"
    by (simp_all add: t)
  have 7: "getStats ?s' = getStats s" by (simp add: getStats_def 3 6)
  from 1 2 3 4 5 6 7 show ?thesis by blast
qed

theorem publish_failure_unregisters_witness:
  "reachable waiting \<and> isInitialized waiting
   \<and> map_of (pendingRequests waiting) (uuid (call_u1\<lparr>uuid := ''decaf'', publishOutcome := Throws ''Error: channel closed''\<rparr>)) = None
   \<and> fst (sendRequest (call_u1\<lparr>uuid := ''decaf'', publishOutcome := Throws ''Error: channel closed''\<rparr>)
            ''face.verification.requests'' ''u2'' None waiting) =
       Inl (AppError 503 ''Falha ao enviar request para face.verification.requests: Error: channel closed'')
   \<and> pendingRequests (snd (sendRequest (call_u1\<lparr>uuid := ''decaf'', publishOutcome := Throws ''Error: channel closed''\<rparr>)
            ''face.verification.requests'' ''u2'' None waiting)) =
       [(''c0ffee'', \<lparr>settle = 0, timeout = 0, pending_requestId = ''c0ffee'', requestedAt = 1000\<rparr>)]
   \<and> timers (snd (sendRequest (call_u1\<lparr>uuid := ''decaf'', publishOutcome := Throws ''Error: channel closed''\<rparr>)
            ''face.verification.requests'' ''u2'' None waiting)) 1 = None"
proof -
  let ?env = "call_u1\<lparr>uuid := ''decaf'', publishOutcome := Throws ''Error: channel closed''\<rparr>"
  have i: "isInitialized waiting" by (simp add: waiting_fields)
  have f: "map_of (pendingRequests waiting) (uuid ?env) = None" by (simp add: waiting_fields)
  have o: "publishOutcome ?env = Throws ''Error: channel closed''" by simp
  from publish_failure_unregisters[OF reachable_waiting i f o,
      of "''face.verification.requests''" "''u2''" None]
  obtain s' where
    "sendRequest ?env ''face.verification.requests'' ''u2'' None waiting =
       (Inl (AppError 503 (publish_failed_message ''face.verification.requests''
          ''Error: channel closed'')), s')"
    "pendingRequests s' = pendingRequests waiting" "timers s' (nextTimer waiting) = None"
    by blast
  then show ?thesis
    using reachable_waiting i f
    by (simp add: waiting_fields publish_failed_message_def)
qed

text \<open>
  Claim C7, as stated, fails: \<open>sendRequest\<close> stores the entry with \<open>Map.set\<close> and never looks
  whether the identifier is there. With an identifier that is registered, the call
  succeeds and the entry of the earlier call is replaced.
\<close>

theorem colliding_id_overwrites_counterexample:
  "map_of (pendingRequests waiting) (uuid call_u1) =
     Some \<lparr>settle = 0, timeout = 0, pending_requestId = ''c0ffee'', requestedAt = 1000\<rparr>
   \<and> fst (sendRequest call_u1 ''face.verification.requests'' ''u2'' (Some 1000) waiting) = Inr 1
   \<and> pendingRequests (snd (sendRequest call_u1 ''face.verification.requests'' ''u2'' (Some 1000) waiting)) =
       [(''c0ffee'', \<lparr>settle = 1, timeout = 1, pending_requestId = ''c0ffee'', requestedAt = 1000\<rparr>)]"
  by (simp add: sendRequest_returns[where b = True] waiting_fields call_u1_def)

lemma length_update_present:
  "map_of al k \<noteq> None \<Longrightarrow> length (AList.update k v al) = length al"
  by (induction al) (auto split: if_splits)

text \<open>
  Claim C7, amended. \<open>sendRequest\<close> makes no check of the identifier: in an initialized
  service whose publish returns, the call never fails, the registry then maps the
  identifier to the new entry (replacing an entry that was there), and every other
  identifier is mapped as before. When the identifier is not a key of the registry, which
  is what \<open>uuidv4\<close> is relied on for, the new entry is added after the existing ones and
  the size grows by one.
\<close>

theorem registration_does_not_check_collisions:
  fixes s :: "('q, 'r) service"
  assumes "isInitialized s" and "publishOutcome env = Returns b"
  shows "\<exists>s'. sendRequest env queue request tm s = (Inr (nextPromise s), s')
           \<and> map_of (pendingRequests s') (uuid env) =
               Some \<lparr>settle = nextPromise s, timeout = nextTimer s, pending_requestId = uuid env,
                     requestedAt = dateNow env\<rparr>
           \<and> (\<forall>k. k \<noteq> uuid env \<longrightarrow> map_of (pendingRequests s') k = map_of (pendingRequests s) k)
           \<and> (map_of (pendingRequests s) (uuid env) = None \<longrightarrow>
                pendingRequests s' = pendingRequests s @
                  [(uuid env, \<lparr>settle = nextPromise s, timeout = nextTimer s,
                                pending_requestId = uuid env, requestedAt = dateNow env\<rparr>)]
                \<and> stats_pendingRequests (getStats s') = Suc (stats_pendingRequests (getStats s)))
           \<and> (map_of (pendingRequests s) (uuid env) \<noteq> None \<longrightarrow>
                length (pendingRequests s') = length (pendingRequests s))"
proof -
  let ?s' = "snd (sendRequest env queue request tm s)"
  let ?p = "\<lparr>settle = nextPromise s, timeout = nextTimer s, pending_requestId = uuid env,
             requestedAt = dateNow env\<rparr>"
  note r = sendRequest_returns[OF assms, of queue request tm]
  have reg: "pendingRequests ?s' = AList.update (uuid env) ?p (pendingRequests s)"
    by (simp add: r)
  have 1: "sendRequest env queue request tm s = (Inr (nextPromise s), ?s')" by (simp add: r)
  have 2: "map_of (pendingRequests ?s') (uuid env) = Some ?p"
    by (simp add: reg AList.update_conv')
  have 3: "\<forall>k. k \<noteq> uuid env \<longrightarrow> map_of (pendingRequests ?s') k = map_of (pendingRequests s) k"
    by (simp add: reg AList.update_conv')
  have 4: "pendingRequests ?s' = pendingRequests s @ [(uuid env, ?p)]
           \<and> stats_pendingRequests (getStats ?s') = Suc (stats_pendingRequests (getStats s))"
    if "map_of (pendingRequests s) (uuid env) = None"
    by (simp add: reg update_fresh[OF that] getStats_def)
  have 5: "length (pendingRequests ?s') = length (pendingRequests s)"
    if "map_of (pendingRequests s) (uuid env) \<noteq> None"
    using that by (simp add: reg length_update_present)
  show ?thesis
  proof (intro exI[of _ "?s'"] conjI impI)
    show "sendRequest env queue request tm s = (Inr (nextPromise s), ?s')" by (rule 1)
    show "map_of (pendingRequests ?s') (uuid env) = Some ?p" by (rule 2)
    show "\<forall>k. k \<noteq> uuid env \<longrightarrow> map_of (pendingRequests ?s') k = map_of (pendingRequests s) k"
      by (rule 3)
    show "pendingRequests ?s' = pendingRequests s @ [(uuid env, ?p)]"
      if "map_of (pendingRequests s) (uuid env) = None"
      using 4[OF that] by (rule conjunct1)
    show "stats_pendingRequests (getStats ?s') = Suc (stats_pendingRequests (getStats s))"
      if "map_of (pendingRequests s) (uuid env) = None"
      using 4[OF that] by (rule conjunct2)
    show "length (pendingRequests ?s') = length (pendingRequests s)"
      if "map_of (pendingRequests s) (uuid env) \<noteq> None"
      by (rule 5[OF that])
  qed
qed

theorem registration_does_not_check_collisions_witness:
  "isInitialized waiting \<and> publishOutcome (call_u1\<lparr>uuid := ''decaf''\<rparr>) = Returns True
   \<and> fst (sendRequest (call_u1\<lparr>uuid := ''decaf''\<rparr>) ''face.verification.requests'' ''u2'' None waiting) = Inr 1
   \<and> pendingRequests (snd (sendRequest (call_u1\<lparr>uuid := ''decaf''\<rparr>) ''face.verification.requests'' ''u2'' None waiting)) =
       [(''c0ffee'', \<lparr>settle = 0, timeout = 0, pending_requestId = ''c0ffee'', requestedAt = 1000\<rparr>),
        (''decaf'', \<lparr>settle = 1, timeout = 1, pending_requestId = ''decaf'', requestedAt = 1000\<rparr>)]"
proof -
  let ?env = "call_u1\<lparr>uuid := ''decaf''\<rparr>"
  have i: "isInitialized waiting" by (simp add: waiting_fields)
  have o: "publishOutcome ?env = Returns True" by (simp add: call_u1_def)
  have f: "map_of (pendingRequests waiting) (uuid ?env) = None" by (simp add: waiting_fields)
  note t = registration_does_not_check_collisions[OF i o,
      of "''face.verification.requests''" "''u2''" None]
  from t obtain s' where
    a: "sendRequest ?env ''face.verification.requests'' ''u2'' None waiting = (Inr (nextPromise waiting), s')"
    and rest: "map_of (pendingRequests s') (uuid ?env) =
               Some \<lparr>settle = nextPromise waiting, timeout = nextTimer waiting,
                     pending_requestId = uuid ?env, requestedAt = dateNow ?env\<rparr>
           \<and> (\<forall>k. k \<noteq> uuid ?env \<longrightarrow> map_of (pendingRequests s') k = map_of (pendingRequests waiting) k)
           \<and> (map_of (pendingRequests waiting) (uuid ?env) = None \<longrightarrow>
                pendingRequests s' = pendingRequests waiting @
                  [(uuid ?env, \<lparr>settle = nextPromise waiting, timeout = nextTimer waiting,
                                pending_requestId = uuid ?env, requestedAt = dateNow ?env\<rparr>)]
                \<and> stats_pendingRequests (getStats s') = Suc (stats_pendingRequests (getStats waiting)))
           \<and> (map_of (pendingRequests waiting) (uuid ?env) \<noteq> None \<longrightarrow>
                length (pendingRequests s') = length (pendingRequests waiting))"
    by (elim exE conjE) (rule that, assumption, intro conjI, assumption+)
  from rest f have b: "pendingRequests s' = pendingRequests waiting @
                  [(uuid ?env, \<lparr>settle = nextPromise waiting, timeout = nextTimer waiting,
                                pending_requestId = uuid ?env, requestedAt = dateNow ?env\<rparr>)]"
    by (elim conjE) (erule impE, assumption, erule conjunct1)
  have 1: "fst (sendRequest ?env ''face.verification.requests'' ''u2'' None waiting) = Inr 1"
    by (simp add: a waiting_fields)
  have 2: "pendingRequests (snd (sendRequest ?env ''face.verification.requests'' ''u2'' None waiting)) =
       [(''c0ffee'', \<lparr>settle = 0, timeout = 0, pending_requestId = ''c0ffee'', requestedAt = 1000\<rparr>),
        (''decaf'', \<lparr>settle = 1, timeout = 1, pending_requestId = ''decaf'', requestedAt = 1000\<rparr>)]"
    by (simp add: a b) (simp add: waiting_fields call_u1_def)
  from i o 1 2 show ?thesis by (intro conjI)
qed

section \<open>Time-outs\<close>

lemma timer_fires_owner:
  fixes s :: "('q, 'm BaseResponse_scheme) service"
  assumes "reachable s" and "timers s h = Some t"
  shows "map_of (pendingRequests (timer_fires h s)) (timer_requestId t) = None"
    and "timers (timer_fires h s) h = None"
    and "promises (timer_fires h s) (timer_reject t) =
           Some (Rejected (AppError 504 (timeout_message (timer_text t) (timer_requestId t))))"
    and "\<exists>p. map_of (pendingRequests s) (timer_requestId t) = Some p \<and> timeout p = h \<and>
               settle p = timer_reject t"
    and "number_text (delay t) = Some digits \<Longrightarrow> timer_text t = digits"
proof -
  have c: "consistent s" by (rule reachable_consistent[OF assms(1)])
  note f = timer_fires_fields[OF assms(2)]
  from armed_timer_entry[OF c assms(2)] obtain p where
    p: "timeout p = h" "settle p = timer_reject t" "promises s (settle p) = Some Pending"
       "map_of (pendingRequests s) (timer_requestId t) = Some p"
    by blast
  show "map_of (pendingRequests (timer_fires h s)) (timer_requestId t) = None"
    by (simp add: f(1) AList.delete_conv')
  show "timers (timer_fires h s) h = None" by (simp add: f(2))
  show "promises (timer_fires h s) (timer_reject t) =
           Some (Rejected (AppError 504 (timeout_message (timer_text t) (timer_requestId t))))"
    using p(2,3) by (simp add: f(3) promise_reject_fields)
  show "\<exists>p. map_of (pendingRequests s) (timer_requestId t) = Some p \<and> timeout p = h \<and>
               settle p = timer_reject t"
    using p by blast
  show "timer_text t = digits" if "number_text (delay t) = Some digits"
    using c assms(2) that unfolding consistent_def timer_texts_def by blast
qed

lemma waiting_200_fields:
  "pendingRequests waiting_200 =
     [(''c0ffee'', \<lparr>settle = 0, timeout = 0, pending_requestId = ''c0ffee'', requestedAt = 1000\<rparr>)]"
  "promises waiting_200 = (\<lambda>p. None)(0 \<mapsto> Pending)"
  "timers waiting_200 = (\<lambda>h. None)(0 \<mapsto> deadline_timer call_u1 200 0)"
  by (simp_all add: waiting_200_def call_u1_def started_fields
      sendRequest_returns[where b = True])

lemma reachable_waiting_200: "reachable waiting_200"
  unfolding waiting_200_def
  by (intro reachable_step reachable_started) (simp add: started_fields)

section \<open>Shutting down\<close>

lemma two_waiting_fields:
  "isInitialized two_waiting"
  "pendingRequests two_waiting =
     [(''c0ffee'', \<lparr>settle = 0, timeout = 0, pending_requestId = ''c0ffee'', requestedAt = 1000\<rparr>),
      (''decaf'', \<lparr>settle = 1, timeout = 1, pending_requestId = ''decaf'', requestedAt = 2000\<rparr>)]"
  "nextPromise two_waiting = 2"
  "nextTimer two_waiting = 2"
  by (simp_all add: two_waiting_def call_u2_def waiting_fields sendRequest_returns[where b = True])

lemma three_waiting_fields:
  "isInitialized three_waiting"
  "pendingRequests three_waiting =
     [(''c0ffee'', \<lparr>settle = 0, timeout = 0, pending_requestId = ''c0ffee'', requestedAt = 1000\<rparr>),
      (''decaf'', \<lparr>settle = 1, timeout = 1, pending_requestId = ''decaf'', requestedAt = 2000\<rparr>),
      (''facade'', \<lparr>settle = 2, timeout = 2, pending_requestId = ''facade'', requestedAt = 3000\<rparr>)]"
  by (simp_all add: three_waiting_def call_u3_def two_waiting_fields
      sendRequest_returns[where b = False])

lemma reachable_two_waiting: "reachable two_waiting"
  unfolding two_waiting_def
  by (intro reachable_step reachable_waiting) (simp add: waiting_fields call_u2_def)

lemma reachable_three_waiting: "reachable three_waiting"
  unfolding three_waiting_def
  by (intro reachable_step reachable_two_waiting) (simp add: two_waiting_fields call_u3_def)

lemma cleanup_nothing_pending:
  "pendingRequests s = [] \<Longrightarrow>
     cleanup s = s\<lparr>isInitialized := False, console := console s @ [CleaningUp 0, CleanupDone]\<rparr>"
  by (simp add: cleanup_def console_log_def)

lemma not_initialized_twice:
  "\<not> isInitialized (s :: ('q, 'r) service) \<Longrightarrow> s\<lparr>isInitialized := False\<rparr> = s"
  by (cases s) simp

text \<open>
  Claim C5. In a reachable state, \<open>cleanup\<close> rejects the promise of every registered call
  with \<open>AppError(503, Service shutting down)\<close>, the shutdown error of the service, and
  disarms its timer; afterwards the registry is empty, \<open>getStats\<close> reports no pending
  request, no timer is armed and the service is not initialized, so that every
  \<open>sendRequest\<close> is rejected, with the error that a service that was never initialized
  gives. With nothing pending \<open>cleanup\<close> only clears the flag and writes its two console
  lines, and a second \<open>cleanup\<close> only writes them again.
\<close>

theorem cleanup_cancels_every_call:
  fixes s :: "('q, 'm BaseResponse_scheme) service"
  assumes "reachable s"
  shows "(\<forall>k p. map_of (pendingRequests s) k = Some p \<longrightarrow>
            promises (cleanup s) (settle p) = Some (Rejected (AppError 503 ''Service shutting down''))
            \<and> timers (cleanup s) (timeout p) = None)
       \<and> pendingRequests (cleanup s) = []
       \<and> stats_pendingRequests (getStats (cleanup s)) = 0
       \<and> (\<forall>h. timers (cleanup s) h = None)
       \<and> \<not> isInitialized (cleanup s)
       \<and> (\<forall>env queue request tm.
            sendRequest env queue request tm (cleanup s) =
              (Inl (AppError 500 not_initialized_message), cleanup s))
       \<and> (\<forall>env queue request tm q.
            fst (sendRequest env queue request tm (new_service q :: ('q, 'm BaseResponse_scheme) service)) =
              Inl (AppError 500 not_initialized_message))
       \<and> cleanup (cleanup s) =
           (cleanup s)\<lparr>console := console (cleanup s) @ [CleaningUp 0, CleanupDone]\<rparr>
       \<and> (pendingRequests s = [] \<longrightarrow>
            cleanup s = s\<lparr>isInitialized := False,
                           console := console s @ [CleaningUp 0, CleanupDone]\<rparr>)"
proof -
  have c: "consistent s" by (rule reachable_consistent[OF assms])
  then have ow: "timers_owned s" by (simp add: consistent_def)
  have 1: "promises (cleanup s) (settle p) = Some (Rejected (AppError 503 ''Service shutting down''))
           \<and> timers (cleanup s) (timeout p) = None"
    if m: "map_of (pendingRequests s) k = Some p" for k p
  proof -
    from m have mem: "(k, p) \<in> set (pendingRequests s)" by (rule map_of_SomeD)
    then have "settle p \<in> (settle \<circ> snd) ` set (pendingRequests s)"
      and "timeout p \<in> (timeout \<circ> snd) ` set (pendingRequests s)"
      by force+
    moreover have "promises s (settle p) = Some Pending"
      by (rule registered_is_live(1)[OF assms m])
    ultimately show ?thesis by (simp add: cleanup_fields)
  qed
  have 2: "pendingRequests (cleanup s) = []" by (rule cleanup_fields(1))
  have 3: "stats_pendingRequests (getStats (cleanup s)) = 0" by (simp add: getStats_def 2)
  have 4: "timers (cleanup s) h = None" for h
  proof (cases "timers s h")
    case None
    then show ?thesis by (simp add: cleanup_fields)
  next
    case (Some t)
    with ow obtain p where "(timer_requestId t, p) \<in> set (pendingRequests s)" "timeout p = h"
      unfolding timers_owned_def by blast
    then have "h \<in> (timeout \<circ> snd) ` set (pendingRequests s)" by force
    then show ?thesis by (simp add: cleanup_fields)
  qed
  have 5: "\<not> isInitialized (cleanup s)" by (simp add: cleanup_fields)
  have 6: "sendRequest env queue request tm (cleanup s) =
             (Inl (AppError 500 not_initialized_message), cleanup s)" for env queue request tm
    by (rule sendRequest_not_initialized[OF 5])
  have 7: "fst (sendRequest env queue request tm (new_service q :: ('q, 'm BaseResponse_scheme) service)) =
             Inl (AppError 500 not_initialized_message)" for env queue request tm q
    by (simp add: sendRequest_def new_service_def)
  have 8: "cleanup (cleanup s) =
           (cleanup s)\<lparr>console := console (cleanup s) @ [CleaningUp 0, CleanupDone]\<rparr>"
    by (simp add: cleanup_nothing_pending[OF 2] not_initialized_twice[OF 5])
  have 9: "cleanup s = s\<lparr>isInitialized := False,
                           console := console s @ [CleaningUp 0, CleanupDone]\<rparr>"
    if "pendingRequests s = []"
    by (rule cleanup_nothing_pending[OF that])
  show ?thesis
  proof (intro conjI allI impI)
    fix k p assume m: "map_of (pendingRequests s) k = Some p"
    show "promises (cleanup s) (settle p) = Some (Rejected (AppError 503 ''Service shutting down''))"
      by (rule 1[OF m, THEN conjunct1])
    show "timers (cleanup s) (timeout p) = None"
      by (rule 1[OF m, THEN conjunct2])
  next
    show "pendingRequests (cleanup s) = []" by (rule 2)
    show "stats_pendingRequests (getStats (cleanup s)) = 0" by (rule 3)
    show "timers (cleanup s) h = None" for h by (rule 4)
    show "\<not> isInitialized (cleanup s)" by (rule 5)
    show "sendRequest env queue request tm (cleanup s) =
             (Inl (AppError 500 not_initialized_message), cleanup s)" for env queue request tm
      by (rule 6)
    show "fst (sendRequest env queue request tm (new_service q :: ('q, 'm BaseResponse_scheme) service)) =
             Inl (AppError 500 not_initialized_message)" for env queue request tm q
      by (rule 7)
    show "cleanup (cleanup s) =
           (cleanup s)\<lparr>console := console (cleanup s) @ [CleaningUp 0, CleanupDone]\<rparr>"
      by (rule 8)
    show "cleanup s = s\<lparr>isInitialized := False,
                           console := console s @ [CleaningUp 0, CleanupDone]\<rparr>"
      if "pendingRequests s = []"
      by (rule 9[OF that])
  qed
qed

theorem cleanup_cancels_every_call_witness:
  "reachable three_waiting
   \<and> stats_pendingRequests (getStats three_waiting) = 3
   \<and> promises (cleanup three_waiting) 0 = Some (Rejected (AppError 503 ''Service shutting down''))
   \<and> promises (cleanup three_waiting) 1 = Some (Rejected (AppError 503 ''Service shutting down''))
   \<and> promises (cleanup three_waiting) 2 = Some (Rejected (AppError 503 ''Service shutting down''))
   \<and> timers (cleanup three_waiting) 0 = None
   \<and> timers (cleanup three_waiting) 1 = None
   \<and> timers (cleanup three_waiting) 2 = None
   \<and> stats_pendingRequests (getStats (cleanup three_waiting)) = 0
   \<and> fst (sendRequest call_u1 ''face.verification.requests'' ''u1'' None (cleanup three_waiting)) =
       Inl (AppError 500 not_initialized_message)"
proof -
  note t = cleanup_cancels_every_call[OF reachable_three_waiting]
  have e: "map_of (pendingRequests three_waiting) ''c0ffee'' =
             Some \<lparr>settle = 0, timeout = 0, pending_requestId = ''c0ffee'', requestedAt = 1000\<rparr>"
    "map_of (pendingRequests three_waiting) ''decaf'' =
             Some \<lparr>settle = 1, timeout = 1, pending_requestId = ''decaf'', requestedAt = 2000\<rparr>"
    "map_of (pendingRequests three_waiting) ''facade'' =
             Some \<lparr>settle = 2, timeout = 2, pending_requestId = ''facade'', requestedAt = 3000\<rparr>"
    by (simp_all add: three_waiting_fields)
  from t have a: "\<And>k p. map_of (pendingRequests three_waiting) k = Some p \<Longrightarrow>
            promises (cleanup three_waiting) (settle p) =
              Some (Rejected (AppError 503 ''Service shutting down''))
            \<and> timers (cleanup three_waiting) (timeout p) = None"
    by (elim conjE) (erule allE, erule allE, erule mp, assumption)
  from t have b: "stats_pendingRequests (getStats (cleanup three_waiting)) = 0"
    by (elim conjE)
  from t have i: "\<not> isInitialized (cleanup three_waiting)" by (elim conjE)
  have n: "stats_pendingRequests (getStats three_waiting) = 3"
    by (simp add: getStats_def three_waiting_fields)
  have r: "fst (sendRequest call_u1 ''face.verification.requests'' ''u1'' None (cleanup three_waiting)) =
       Inl (AppError 500 not_initialized_message)"
    using i by (simp add: sendRequest_def)
  from a[OF e(1)] a[OF e(2)] a[OF e(3)] b n r reachable_three_waiting
  show ?thesis by simp
qed

section \<open>The life of a registered call\<close>

lemma other_entry_survives:
  assumes c: "consistent s"
    and kp: "map_of (pendingRequests s) k = Some p"
    and k'p': "map_of (pendingRequests s) k' = Some p'"
    and ne: "k' \<noteq> k"
    and reg: "pendingRequests s' = AList.delete k' (pendingRequests s)"
    and tim: "timers s' = (timers s)(timeout p' := None)"
    and pro: "promises s' = promises s \<or> (\<exists>v. promises s' = (promises s)(settle p' \<mapsto> v))"
  shows "map_of (pendingRequests s') k = Some p"
    and "promises s' (settle p) = Some Pending"
    and "timers s' (timeout p) = timers s (timeout p)"
proof -
  from c have el: "entries_live s" and inj: "settle_inj s" by (simp_all add: consistent_def)
  have mem: "(k, p) \<in> set (pendingRequests s)" "(k', p') \<in> set (pendingRequests s)"
    using kp k'p' by (auto dest: map_of_SomeD)
  from el mem(1) obtain t where t: "timers s (timeout p) = Some t" "timer_requestId t = k"
    and live: "promises s (settle p) = Some Pending"
    unfolding entries_live_def by blast
  from el mem(2) obtain t' where t': "timers s (timeout p') = Some t'" "timer_requestId t' = k'"
    unfolding entries_live_def by blast
  from t t' ne have nt: "timeout p \<noteq> timeout p'" by auto
  from inj mem ne have ns: "settle p \<noteq> settle p'" unfolding settle_inj_def by blast
  show "map_of (pendingRequests s') k = Some p"
    using kp ne by (simp add: reg AList.delete_conv')
  show "promises s' (settle p) = Some Pending"
    using pro live ns by auto
  show "timers s' (timeout p) = timers s (timeout p)"
    using nt by (simp add: tim)
qed

lemma settled_stays:
  fixes s :: "('q, 'm BaseResponse_scheme) service"
  assumes r: "reachable s" and q: "promises s q = Some v" and v: "v \<noteq> Pending"
  shows "promises (step e s) q = Some v"
proof (cases e)
  case (Initialize rq rc)
  then show ?thesis using q by (simp add: initialize_fields)
next
  case (SendRequest env queue request tm)
  have ne: "q \<noteq> nextPromise s" using unallocated(2)[OF r] q by auto
  show ?thesis
  proof (cases "isInitialized s")
    case False
    then show ?thesis using q SendRequest by (simp add: sendRequest_not_initialized)
  next
    case True
    show ?thesis
    proof (cases "publishOutcome env")
      case (Returns b)
      then show ?thesis
        using q ne SendRequest by (simp add: sendRequest_returns[OF True Returns])
    next
      case (Throws x)
      then show ?thesis
        using q ne SendRequest by (simp add: sendRequest_throws[OF True Throws])
    qed
  qed
next
  case (HandleResponse response now)
  show ?thesis
  proof (cases "map_of (pendingRequests s) (requestId response)")
    case None
    then show ?thesis using q HandleResponse by (simp add: handleResponse_unknown)
  next
    case (Some p)
    then show ?thesis
      using q v HandleResponse
      by (auto simp: handleResponse_fields(3) promise_resolve_def promise_reject_def)
  qed
next
  case (TimerFires h)
  show ?thesis
  proof (cases "timers s h")
    case None
    then show ?thesis using q TimerFires by (simp add: timer_fires_unarmed)
  next
    case (Some t)
    then show ?thesis
      using q v TimerFires by (auto simp: timer_fires_fields(3) promise_reject_fields)
  qed
next
  case Cleanup
  then show ?thesis using q v by (auto simp: cleanup_fields)
qed

lemma send_keeps_entry:
  fixes s :: "('q, 'm BaseResponse_scheme) service"
  assumes r: "reachable s" and kp: "map_of (pendingRequests s) k = Some p"
    and fresh: "map_of (pendingRequests s) (uuid env) = None"
  shows "map_of (pendingRequests (snd (sendRequest env queue request tm s))) k = Some p"
    and "promises (snd (sendRequest env queue request tm s)) (settle p) = Some Pending"
    and "timers (snd (sendRequest env queue request tm s)) (timeout p) = timers s (timeout p)"
proof -
  let ?s' = "snd (sendRequest env queue request tm s)"
  have ne: "k \<noteq> uuid env" using kp fresh by auto
  have live: "promises s (settle p) = Some Pending" by (rule registered_is_live(1)[OF r kp])
  from registered_is_live(2)[OF r kp] unallocated(1)[OF r]
  have nt: "timeout p \<noteq> nextTimer s" by auto
  have "map_of (pendingRequests ?s') k = Some p \<and> promises ?s' (settle p) = Some Pending \<and>
        timers ?s' (timeout p) = timers s (timeout p)"
  proof (cases "isInitialized s")
    case False
    then show ?thesis using kp live by (simp add: sendRequest_not_initialized)
  next
    case True
    show ?thesis
    proof (cases "publishOutcome env")
      case (Returns b)
      show ?thesis
        using kp live ne nt
        by (simp add: sendRequest_returns[OF True Returns] AList.update_conv')
    next
      case (Throws x)
      show ?thesis
        using kp live ne nt
        by (simp add: sendRequest_throws[OF True Throws] AList.delete_conv')
    qed
  qed
  then show "map_of (pendingRequests ?s') k = Some p"
    and "promises ?s' (settle p) = Some Pending"
    and "timers ?s' (timeout p) = timers s (timeout p)"
    by simp_all
qed

lemma response_keeps_other_entry:
  fixes s :: "('q, 'm BaseResponse_scheme) service"
  assumes r: "reachable s" and kp: "map_of (pendingRequests s) k = Some p"
    and ne: "requestId response \<noteq> k"
  shows "map_of (pendingRequests (handleResponse response now s)) k = Some p"
    and "promises (handleResponse response now s) (settle p) = Some Pending"
    and "timers (handleResponse response now s) (timeout p) = timers s (timeout p)"
proof -
  let ?s' = "handleResponse response now s"
  have live: "promises s (settle p) = Some Pending" by (rule registered_is_live(1)[OF r kp])
  have "map_of (pendingRequests ?s') k = Some p \<and> promises ?s' (settle p) = Some Pending \<and>
        timers ?s' (timeout p) = timers s (timeout p)"
  proof (cases "map_of (pendingRequests s) (requestId response)")
    case None
    then show ?thesis using kp live by (simp add: handleResponse_unknown)
  next
    case (Some p')
    note f = handleResponse_fields[OF Some, of now]
    have pro: "promises ?s' = promises s \<or> (\<exists>v. promises ?s' = (promises s)(settle p' \<mapsto> v))"
      by (auto simp: f(3) promise_resolve_def promise_reject_def)
    from other_entry_survives[OF reachable_consistent[OF r] kp Some ne f(1) f(2) pro]
    show ?thesis by simp
  qed
  then show "map_of (pendingRequests ?s') k = Some p"
    and "promises ?s' (settle p) = Some Pending"
    and "timers ?s' (timeout p) = timers s (timeout p)"
    by simp_all
qed

lemma timer_keeps_other_entry:
  fixes s :: "('q, 'm BaseResponse_scheme) service"
  assumes r: "reachable s" and kp: "map_of (pendingRequests s) k = Some p"
    and ne: "h \<noteq> timeout p"
  shows "map_of (pendingRequests (timer_fires h s)) k = Some p"
    and "promises (timer_fires h s) (settle p) = Some Pending"
    and "timers (timer_fires h s) (timeout p) = timers s (timeout p)"
proof -
  let ?s' = "timer_fires h s"
  have live: "promises s (settle p) = Some Pending" by (rule registered_is_live(1)[OF r kp])
  have "map_of (pendingRequests ?s') k = Some p \<and> promises ?s' (settle p) = Some Pending \<and>
        timers ?s' (timeout p) = timers s (timeout p)"
  proof (cases "timers s h")
    case None
    then show ?thesis using kp live by (simp add: timer_fires_unarmed)
  next
    case (Some t)
    note f = timer_fires_fields[OF Some]
    from timer_fires_owner(4)[OF r Some] obtain p' where
      p': "map_of (pendingRequests s) (timer_requestId t) = Some p'" "timeout p' = h"
          "settle p' = timer_reject t"
      by blast
    have nk: "timer_requestId t \<noteq> k" using p' kp ne by auto
    have tim: "timers ?s' = (timers s)(timeout p' := None)" by (simp add: f(2) p'(2))
    have pro: "promises ?s' = promises s \<or> (\<exists>v. promises ?s' = (promises s)(settle p' \<mapsto> v))"
      by (auto simp: f(3) p'(3) promise_reject_def)
    from other_entry_survives[OF reachable_consistent[OF r] kp p'(1) nk f(1) tim pro]
    show ?thesis by simp
  qed
  then show "map_of (pendingRequests ?s') k = Some p"
    and "promises ?s' (settle p) = Some Pending"
    and "timers ?s' (timeout p) = timers s (timeout p)"
    by simp_all
qed

section \<open>Replies with a failure\<close>

lemma bit_length_eq:
  "2 ^ k \<le> n \<Longrightarrow> n < 2 ^ Suc k \<Longrightarrow> bit_length n = Suc k"
proof (induction k arbitrary: n)
  case 0
  then have "n = 1" by simp
  then show ?case by (simp add: bit_length.simps)
next
  case (Suc k)
  from Suc.prems have "2 ^ k \<le> n div 2" "n div 2 < 2 ^ Suc k" by auto
  from Suc.IH[OF this] Suc.prems show ?case
    by (subst bit_length.simps) auto
qed

lemma parseInt10_rounds:
  "parseInt10 ''9007199254740993'' = Some (Integer 9007199254740992)"
proof -
  have "bit_length 9007199254740993 = Suc 53"
    by (rule bit_length_eq) simp_all
  then show ?thesis
    by (simp add: parseInt10_def isWhiteSpace_def isDigit_def digitValue_def
        round_to_double_def Let_def)
qed

text \<open>
  Claim C9, as stated, fails: the error that rejects the call has a number as its code,
  obtained by \<open>parseInt\<close>, and a remote code that is not a number is replaced by 500.
\<close>

theorem remote_error_verbatim_counterexample:
  "promises (handleResponse (reply_failed ''FACE_NOT_FOUND'' ''face not found'') 1040 waiting) 0 =
     Some (Rejected (AppError 500 ''face not found''))
   \<and> number_text 500 \<noteq> Some ''FACE_NOT_FOUND''"
proof -
  from remote_failure_value(1)[OF reachable_waiting waiting_entry(1,2), of "''FACE_NOT_FOUND''" "''face not found''" 1040]
  have "promises (handleResponse (reply_failed ''FACE_NOT_FOUND'' ''face not found'') 1040 waiting) 0 =
     Some (Rejected (AppError 500 ''face not found''))"
    by (simp add: waiting_entry(3) or_number_code parseInt10_examples or_string_def or_number_def)
  moreover have "number_text 500 \<noteq> Some ''FACE_NOT_FOUND''"
    by (simp add: number_text_def string_of_nat.simps[of 500] string_of_nat.simps[of 50]
        string_of_nat.simps[of 5])
  ultimately show ?thesis by simp
qed

text \<open>
  Claim C9, amended. In a reachable state, a response with \<open>success: false\<close> and an
  \<open>error\<close> object, for a registered identifier, rejects the promise of that entry with an
  \<open>AppError\<close>: its code is the number that \<open>parseInt(code, 10)\<close> reads from the remote code
  (the double nearest to the value of its digits), or 500 when that is \<open>NaN\<close> or zero;
  its message is the remote message, or \<open>Face recognition service error\<close> when the remote
  message is empty. The entry is removed and its timer disarmed.
\<close>

theorem remote_failure_rejects_call:
  fixes s :: "('q, 'm BaseResponse_scheme) service"
  assumes "reachable s" and "map_of (pendingRequests s) (requestId response) = Some p"
    and "\<not> success response" and "error response = Some e"
  shows "promises (handleResponse response now s) (settle p) =
           Some (Rejected (new_AppError
             (case parseInt10 (code e) of None \<Rightarrow> Integer 500
              | Some n \<Rightarrow> if n = Integer 0 then Integer 500 else n)
             (if message e = [] then ''Face recognition service error'' else message e)))
       \<and> map_of (pendingRequests (handleResponse response now s)) (requestId response) = None
       \<and> timers (handleResponse response now s) (timeout p) = None"
  using remote_failure_value[OF assms(1,2,3), of now] handleResponse_removes[of response now s]
  by (simp add: assms(4) or_number_code) (simp add: or_string_def)

theorem remote_failure_rejects_call_witness:
  "reachable waiting
   \<and> map_of (pendingRequests waiting) (requestId (reply_failed ''404'' ''face not found'')) =
       Some \<lparr>settle = 0, timeout = 0, pending_requestId = ''c0ffee'', requestedAt = 1000\<rparr>
   \<and> \<not> success (reply_failed ''404'' ''face not found'')
   \<and> error (reply_failed ''404'' ''face not found'') = Some \<lparr>code = ''404'', message = ''face not found''\<rparr>
   \<and> promises (handleResponse (reply_failed ''404'' ''face not found'') 1040 waiting) 0 =
       Some (Rejected (AppError 404 ''face not found''))
   \<and> promises (handleResponse (reply_failed ''9007199254740993'' ''big'') 1040 waiting) 0 =
       Some (Rejected (AppError 9007199254740992 ''big''))"
proof -
  from remote_failure_rejects_call[OF reachable_waiting waiting_entry, of "''404''" "''face not found''" 1040]
  have 1: "promises (handleResponse (reply_failed ''404'' ''face not found'') 1040 waiting) 0 =
       Some (Rejected (AppError 404 ''face not found''))"
    by (simp add: parseInt10_examples)
  from remote_failure_rejects_call[OF reachable_waiting waiting_entry, of "''9007199254740993''" "''big''" 1040]
  have 2: "promises (handleResponse (reply_failed ''9007199254740993'' ''big'') 1040 waiting) 0 =
       Some (Rejected (AppError 9007199254740992 ''big''))"
    by (simp add: parseInt10_rounds)
  from 1 2 reachable_waiting waiting_entry[of "''404''" "''face not found''"] show ?thesis by simp
qed

text \<open>
  Claim C8, as stated, fails: the call is not resolved with the payload of the response
  but with the response itself. In the round trip of the specification the value of the
  promise is the whole reply, with its \<open>requestId\<close>, \<open>timestamp\<close>, \<open>success\<close> and
  \<open>messageType\<close>; the payload is its field \<open>data\<close>.
\<close>

theorem call_resolves_with_envelope_counterexample:
  "promises (handleResponse reply_ok 1040 waiting) 0 =
     Some (Fulfilled
       \<lparr>requestId = ''c0ffee'', timestamp = ''2025-01-01T00:00:00.040Z'', success = True,
        error = None, messageType = ''face.verification.response'',
        data = \<lparr>verified = True, confidence = 93 / 100, userId = ''u1'', distance = None,
                requiredConfidence = 85 / 100, metadata = None\<rparr>\<rparr>)"
  by (simp add: answered_fields) (simp add: reply_ok_def)

text \<open>
  Claim C8, amended. In a reachable state, a response with \<open>success: true\<close> for a
  registered identifier fulfils the promise of that entry with the response itself, the
  whole envelope, of which the payload is the field \<open>data\<close>; the entry is removed and its
  timer disarmed. That promise is the one \<open>sendRequest\<close> returned for the call: a call that
  has been sent with the identifier of the response is fulfilled with the response.
\<close>

theorem success_response_resolves_call:
  fixes s :: "('q, 'm BaseResponse_scheme) service"
  assumes "reachable s" and "map_of (pendingRequests s) (requestId response) = Some p"
    and "success response"
  shows "promises (handleResponse response now s) (settle p) = Some (Fulfilled response)
       \<and> map_of (pendingRequests (handleResponse response now s)) (requestId response) = None
       \<and> timers (handleResponse response now s) (timeout p) = None
       \<and> (\<forall>env b queue request tm. \<forall>s0 :: ('q, 'm BaseResponse_scheme) service.
             isInitialized s0 \<and> publishOutcome env = Returns b \<and> uuid env = requestId response \<longrightarrow>
             (\<exists>s1. sendRequest env queue request tm s0 = (Inr (nextPromise s0), s1) \<and>
                promises (handleResponse response now s1) (nextPromise s0) =
                  Some (Fulfilled response)))"
proof -
  have live: "promises s (settle p) = Some Pending"
    by (rule registered_is_live(1)[OF assms(1,2)])
  note e = handleResponse_known_success[OF assms(2) live assms(3), of now]
  have 1: "promises (handleResponse response now s) (settle p) = Some (Fulfilled response)"
    by (simp add: e)
  have 2: "map_of (pendingRequests (handleResponse response now s)) (requestId response) = None"
    by (rule handleResponse_removes)
  have 3: "timers (handleResponse response now s) (timeout p) = None"
    by (simp add: e)
  have 4: "\<exists>s1. sendRequest env queue request tm s0 = (Inr (nextPromise s0), s1) \<and>
             promises (handleResponse response now s1) (nextPromise s0) = Some (Fulfilled response)"
    if "isInitialized s0 \<and> publishOutcome env = Returns b \<and> uuid env = requestId response"
    for env b queue request tm and s0 :: "('q, 'm BaseResponse_scheme) service"
    using that sendRequest_then_success[of s0 env b response queue request tm now] assms(3)
    by simp
  from 1 2 3 show ?thesis
    by (simp only: simp_thms) (intro allI impI, erule 4)
qed

theorem success_response_resolves_call_witness:
  "reachable waiting
   \<and> fst (sendRequest call_u1 ''face.verification.requests'' ''u1'' (Some 1000) started) = Inr 0
   \<and> map_of (pendingRequests waiting) (requestId reply_ok) =
       Some \<lparr>settle = 0, timeout = 0, pending_requestId = ''c0ffee'', requestedAt = 1000\<rparr>
   \<and> success reply_ok
   \<and> promises (handleResponse reply_ok 1040 waiting) 0 = Some (Fulfilled reply_ok)
   \<and> (case promises (handleResponse reply_ok 1040 waiting) 0 of
         Some (Fulfilled response) \<Rightarrow>
           verified (data response) \<and> confidence (data response) = 93 / 100
       | _ \<Rightarrow> False)"
proof -
  have m: "map_of (pendingRequests waiting) (requestId reply_ok) =
       Some \<lparr>settle = 0, timeout = 0, pending_requestId = ''c0ffee'', requestedAt = 1000\<rparr>"
    by (simp add: waiting_fields reply_ok_def)
  have ok: "success reply_ok" by (simp add: reply_ok_def)
  have sent: "fst (sendRequest call_u1 ''face.verification.requests'' ''u1'' (Some 1000) started) = Inr 0"
    by (simp add: sendRequest_returns[where b = True] started_fields call_u1_def)
  from success_response_resolves_call[OF reachable_waiting m ok, of 1040]
  have f: "promises (handleResponse reply_ok 1040 waiting) 0 = Some (Fulfilled reply_ok)"
    by simp
  have "verified (data reply_ok) \<and> confidence (data reply_ok) = 93 / 100"
    by (simp add: reply_ok_def)
  with f m ok sent reachable_waiting show ?thesis by simp
qed

section \<open>The order of registration and publication\<close>

lemma transport_untouched:
  "published (snd (initialize rq rc s)) = published s"
  "atPublish (snd (initialize rq rc s)) = atPublish s"
  "publishCalls (snd (initialize rq rc s)) = publishCalls s"
  "published (handleResponse response now s) = published s"
  "atPublish (handleResponse response now s) = atPublish s"
  "publishCalls (handleResponse response now s) = publishCalls s"
  "published (timer_fires h s) = published s"
  "atPublish (timer_fires h s) = atPublish s"
  "publishCalls (timer_fires h s) = publishCalls s"
  by (simp_all add: initialize_def rabbitMQ_assertQueue_def rabbitMQ_consume_def console_log_def
      handleResponse_def clearTimeout_def promise_resolve_def promise_reject_def
      timer_fires_def Let_def split: outcome.splits option.splits)

lemma published_when_registered_same:
  assumes "published_when_registered s"
    and "published s' = published s" and "atPublish s' = atPublish s"
    and "publishCalls s' = publishCalls s"
  shows "published_when_registered s'"
  using assms by (simp add: published_when_registered_def)

lemma reachable_published_when_registered:
  "reachable s \<Longrightarrow> published_when_registered s"
proof (induction rule: reachable.induct)
  case (reachable_new q)
  show ?case by (simp add: published_when_registered_def new_service_def)
next
  case (reachable_step s e)
  note ih = reachable_step.IH
  show ?case
  proof (cases e)
    case (Initialize rq rc)
    then show ?thesis
      by simp (rule published_when_registered_same[OF ih], simp_all add: transport_untouched)
  next
    case (SendRequest env queue request tm)
    show ?thesis
    proof (cases "isInitialized s")
      case False
      then show ?thesis using ih SendRequest by (simp add: sendRequest_not_initialized)
    next
      case True
      show ?thesis
      proof (cases "publishOutcome env")
        case (Returns b)
        show ?thesis
          using ih unfolding SendRequest published_when_registered_def
          by (auto simp: sendRequest_returns[OF True Returns])
      next
        case (Throws x)
        show ?thesis
          using ih unfolding SendRequest published_when_registered_def
          by (auto simp: sendRequest_throws[OF True Throws])
      qed
    qed
  next
    case (HandleResponse response now)
    then show ?thesis
      by simp (rule published_when_registered_same[OF ih], simp_all add: transport_untouched)
  next
    case (TimerFires h)
    then show ?thesis
      by simp (rule published_when_registered_same[OF ih], simp_all add: transport_untouched)
  next
    case Cleanup
    then show ?thesis
      by simp (rule published_when_registered_same[OF ih], simp_all add: cleanup_fields)
  qed
qed

text \<open>
  Claim C2. In a reachable, initialized state, at the moment \<open>sendRequest\<close> calls the
  publish, the registry holds the entry of the call under the identifier of the request,
  with the call's promise and timer, and that timer is armed: this is the note that the
  call of the publish leaves. The publish is called once, and the only message that
  \<open>sendRequest\<close> adds to those published is this request. Over the whole execution, every
  call of the publish found the identifier of its message registered with an armed timer,
  and every published message comes from such a call: no request is published while its
  identifier is absent from the registry.
\<close>

theorem registered_before_published:
  fixes s :: "('q, 'm BaseResponse_scheme) service"
  assumes "reachable s" and "isInitialized s"
  shows "atPublish (snd (sendRequest env queue request tm s)) =
           atPublish s @
             [\<lparr>noted_requestId = uuid env,
               noted_entry = Some \<lparr>settle = nextPromise s, timeout = nextTimer s,
                                   pending_requestId = uuid env, requestedAt = dateNow env\<rparr>,
               noted_timer = Some (deadline_timer env (case tm of None \<Rightarrow> 30000 | Some t \<Rightarrow> t)
                                     (nextPromise s))\<rparr>]
       \<and> publishCalls (snd (sendRequest env queue request tm s)) = Suc (publishCalls s)
       \<and> (published (snd (sendRequest env queue request tm s)) = published s \<or>
          published (snd (sendRequest env queue request tm s)) =
            published s @
              [([], queue, \<lparr>req_fields = request, req_requestId = uuid env,
                  req_timestamp = isoTimestamp env, req_replyTo = replyQueue s,
                  req_timeout = (case tm of None \<Rightarrow> 30000 | Some t \<Rightarrow> t)\<rparr>)])
       \<and> (\<forall>n \<in> set (atPublish s). noted_entry n \<noteq> None \<and> noted_timer n \<noteq> None)
       \<and> length (atPublish s) = publishCalls s
       \<and> (\<forall>x \<in> set (published s).
            \<exists>n \<in> set (atPublish s). noted_requestId n = req_requestId (snd (snd x)))"
proof -
  let ?s' = "snd (sendRequest env queue request tm s)"
  have inv: "published_when_registered s"
    by (rule reachable_published_when_registered[OF assms(1)])
  have "atPublish ?s' =
           atPublish s @
             [\<lparr>noted_requestId = uuid env,
               noted_entry = Some \<lparr>settle = nextPromise s, timeout = nextTimer s,
                                   pending_requestId = uuid env, requestedAt = dateNow env\<rparr>,
               noted_timer = Some (deadline_timer env (case tm of None \<Rightarrow> 30000 | Some t \<Rightarrow> t)
                                     (nextPromise s))\<rparr>]
       \<and> publishCalls ?s' = Suc (publishCalls s)
       \<and> (published ?s' = published s \<or>
          published ?s' =
            published s @
              [([], queue, \<lparr>req_fields = request, req_requestId = uuid env,
                  req_timestamp = isoTimestamp env, req_replyTo = replyQueue s,
                  req_timeout = (case tm of None \<Rightarrow> 30000 | Some t \<Rightarrow> t)\<rparr>)])"
  proof (cases "publishOutcome env")
    case (Returns b)
    show ?thesis by (simp add: sendRequest_returns[OF assms(2) Returns])
  next
    case (Throws x)
    show ?thesis by (simp add: sendRequest_throws[OF assms(2) Throws])
  qed
  with inv show ?thesis by (simp add: published_when_registered_def)
qed

theorem registered_before_published_witness:
  "reachable waiting \<and> isInitialized waiting
   \<and> atPublish (snd (sendRequest call_u2 ''face.verification.requests'' ''u2'' (Some 5000) waiting)) =
       [\<lparr>noted_requestId = ''c0ffee'',
         noted_entry = Some \<lparr>settle = 0, timeout = 0, pending_requestId = ''c0ffee'',
                             requestedAt = 1000\<rparr>,
         noted_timer = Some (deadline_timer call_u1 1000 0)\<rparr>,
        \<lparr>noted_requestId = ''decaf'',
         noted_entry = Some \<lparr>settle = 1, timeout = 1, pending_requestId = ''decaf'',
                             requestedAt = 2000\<rparr>,
         noted_timer = Some (deadline_timer call_u2 5000 1)\<rparr>]
   \<and> map (req_requestId \<circ> snd \<circ> snd)
         (published (snd (sendRequest call_u2 ''face.verification.requests'' ''u2'' (Some 5000)
            waiting))) = [''c0ffee'', ''decaf'']"
proof -
  have i: "isInitialized waiting" by (simp add: waiting_fields)
  have a: "atPublish waiting =
       [\<lparr>noted_requestId = ''c0ffee'',
         noted_entry = Some \<lparr>settle = 0, timeout = 0, pending_requestId = ''c0ffee'',
                             requestedAt = 1000\<rparr>,
         noted_timer = Some (deadline_timer call_u1 1000 0)\<rparr>]"
    by (simp add: waiting_def call_u1_def started_fields sendRequest_returns[where b = True]
        started_def initialize_def rabbitMQ_assertQueue_def rabbitMQ_consume_def console_log_def
        new_service_def)
  note t = registered_before_published[OF reachable_waiting i,
      of call_u2 "''face.verification.requests''" "''u2''" "Some 5000"]
  from t have 1:
    "atPublish (snd (sendRequest call_u2 ''face.verification.requests'' ''u2'' (Some 5000) waiting)) =
       atPublish waiting @
         [\<lparr>noted_requestId = uuid call_u2,
           noted_entry = Some \<lparr>settle = nextPromise waiting, timeout = nextTimer waiting,
                               pending_requestId = uuid call_u2, requestedAt = dateNow call_u2\<rparr>,
           noted_timer = Some (deadline_timer call_u2 5000 (nextPromise waiting))\<rparr>]"
    by simp
  have 2: "map (req_requestId \<circ> snd \<circ> snd)
         (published (snd (sendRequest call_u2 ''face.verification.requests'' ''u2'' (Some 5000)
            waiting))) = [''c0ffee'', ''decaf'']"
    by (simp add: sendRequest_returns[where b = True] waiting_fields call_u2_def)
  from 1 have 3:
    "atPublish (snd (sendRequest call_u2 ''face.verification.requests'' ''u2'' (Some 5000) waiting)) =
       [\<lparr>noted_requestId = ''c0ffee'',
         noted_entry = Some \<lparr>settle = 0, timeout = 0, pending_requestId = ''c0ffee'',
                             requestedAt = 1000\<rparr>,
         noted_timer = Some (deadline_timer call_u1 1000 0)\<rparr>,
        \<lparr>noted_requestId = ''decaf'',
         noted_entry = Some \<lparr>settle = 1, timeout = 1, pending_requestId = ''decaf'',
                             requestedAt = 2000\<rparr>,
         noted_timer = Some (deadline_timer call_u2 5000 1)\<rparr>]"
    by (simp add: a waiting_fields) (simp add: call_u2_def)
  from reachable_waiting i 3 2 show ?thesis by (intro conjI)
qed

section \<open>Time-outs and the timer clock\<close>

lemma reachable_timer_fires:
  fixes s :: "('q, 'm BaseResponse_scheme) service"
  assumes "reachable s"
  shows "reachable (timer_fires h s)"
  using reachable_step[OF assms, of "TimerFires h"] by simp

lemma reachable_fold_fires:
  fixes s :: "('q, 'm BaseResponse_scheme) service"
  shows "reachable s \<Longrightarrow> reachable (fold timer_fires hs s)"
  by (induction hs arbitrary: s) (simp_all add: reachable_timer_fires)

lemma fold_fires_keeps:
  fixes s :: "('q, 'm BaseResponse_scheme) service"
  assumes "reachable s" and "map_of (pendingRequests s) k = Some p" and "timeout p \<notin> set hs"
  shows "map_of (pendingRequests (fold timer_fires hs s)) k = Some p
       \<and> promises (fold timer_fires hs s) (settle p) = Some Pending
       \<and> timers (fold timer_fires hs s) (timeout p) = timers s (timeout p)"
  using assms
proof (induction hs arbitrary: s)
  case Nil
  then show ?case by (simp add: registered_is_live(1))
next
  case (Cons h hs)
  from Cons.prems(3) have ne: "h \<noteq> timeout p" and rest: "timeout p \<notin> set hs" by auto
  note k = timer_keeps_other_entry[OF Cons.prems(1,2) ne]
  from Cons.IH[OF reachable_timer_fires[OF Cons.prems(1)] k(1) rest] k(3)
  show ?case by simp
qed

lemma timer_fires_stays:
  fixes s :: "('q, 'm BaseResponse_scheme) service"
  assumes "reachable s" and "map_of (pendingRequests s) k = None" and "timers s h = None"
    and "promises s q = Some v" and "v \<noteq> Pending"
  shows "map_of (pendingRequests (timer_fires h' s)) k = None"
    and "timers (timer_fires h' s) h = None"
    and "promises (timer_fires h' s) q = Some v"
proof -
  show "map_of (pendingRequests (timer_fires h' s)) k = None"
    using assms(2)
    by (cases "timers s h'") (simp_all add: timer_fires_unarmed timer_fires_fields AList.delete_conv')
  show "timers (timer_fires h' s) h = None"
    using assms(3)
    by (cases "timers s h'") (simp_all add: timer_fires_unarmed timer_fires_fields)
  show "promises (timer_fires h' s) q = Some v"
    using settled_stays[OF assms(1,4,5), of "TimerFires h'"] by simp
qed

lemma fold_fires_stays:
  fixes s :: "('q, 'm BaseResponse_scheme) service"
  assumes "reachable s" and "map_of (pendingRequests s) k = None" and "timers s h = None"
    and "promises s q = Some v" and "v \<noteq> Pending"
  shows "map_of (pendingRequests (fold timer_fires hs s)) k = None
       \<and> timers (fold timer_fires hs s) h = None
       \<and> promises (fold timer_fires hs s) q = Some v"
  using assms
proof (induction hs arbitrary: s)
  case Nil
  then show ?case by simp
next
  case (Cons h' hs)
  note st = timer_fires_stays[OF Cons.prems, of h']
  from Cons.IH[OF reachable_timer_fires[OF Cons.prems(1)] st Cons.prems(5)]
  show ?case by simp
qed

lemma fold_fires_expires:
  fixes s :: "('q, 'm BaseResponse_scheme) service"
  assumes "reachable s" and "timers s h = Some t" and "h \<in> set hs"
  shows "map_of (pendingRequests (fold timer_fires hs s)) (timer_requestId t) = None
       \<and> timers (fold timer_fires hs s) h = None
       \<and> promises (fold timer_fires hs s) (timer_reject t) =
           Some (Rejected (AppError 504 (timeout_message (timer_text t) (timer_requestId t))))"
  using assms
proof (induction hs arbitrary: s)
  case Nil
  then show ?case by simp
next
  case (Cons h' hs)
  show ?case
  proof (cases "h' = h")
    case True
    note o = timer_fires_owner[OF Cons.prems(1,2)]
    from fold_fires_stays[OF reachable_timer_fires[OF Cons.prems(1)] o(1) o(2) o(3), of hs]
    show ?thesis by (simp add: True)
  next
    case False
    with Cons.prems(3) have mem: "h \<in> set hs" by simp
    have armed: "timers (timer_fires h' s) h = Some t"
      using Cons.prems(2) False
      by (cases "timers s h'") (simp_all add: timer_fires_unarmed timer_fires_fields)
    from Cons.IH[OF reachable_timer_fires[OF Cons.prems(1)] armed mem]
    show ?thesis by simp
  qed
qed

lemma set_due_handles:
  fixes s :: "('q, 'm BaseResponse_scheme) service"
  assumes "reachable s"
  shows "h \<in> set (due_handles T s) \<longleftrightarrow> (\<exists>t. timers s h = Some t \<and> due t \<le> T)"
proof -
  from assms have "allocated s" using reachable_consistent by (auto simp: consistent_def)
  then have "h < nextTimer s" if "timers s h = Some t" for t
    using that unfolding allocated_def by (metis not_le option.distinct(1))
  then show ?thesis
    by (auto simp: due_handles_def split: option.splits)
qed

lemma advance_keeps:
  fixes s :: "('q, 'm BaseResponse_scheme) service"
  assumes "reachable s" and "map_of (pendingRequests s) k = Some p"
    and "timers s (timeout p) = Some t" and "T < due t"
  shows "map_of (pendingRequests (advance_to T s)) k = Some p"
    and "promises (advance_to T s) (settle p) = Some Pending"
    and "timers (advance_to T s) (timeout p) = Some t"
proof -
  have "timeout p \<notin> set (due_handles T s)"
    using assms(3,4) by (simp add: set_due_handles[OF assms(1)])
  from fold_fires_keeps[OF assms(1,2) this] assms(3)
  show "map_of (pendingRequests (advance_to T s)) k = Some p"
    and "promises (advance_to T s) (settle p) = Some Pending"
    and "timers (advance_to T s) (timeout p) = Some t"
    by (simp_all add: advance_to_def)
qed

lemma advance_expires:
  fixes s :: "('q, 'm BaseResponse_scheme) service"
  assumes "reachable s" and "timers s h = Some t" and "due t \<le> T"
  shows "map_of (pendingRequests (advance_to T s)) (timer_requestId t) = None"
    and "timers (advance_to T s) h = None"
    and "promises (advance_to T s) (timer_reject t) =
           Some (Rejected (AppError 504 (timeout_message (timer_text t) (timer_requestId t))))"
proof -
  have "h \<in> set (due_handles T s)"
    using assms(2,3) by (simp add: set_due_handles[OF assms(1)])
  from fold_fires_expires[OF assms(1,2) this]
  show "map_of (pendingRequests (advance_to T s)) (timer_requestId t) = None"
    and "timers (advance_to T s) h = None"
    and "promises (advance_to T s) (timer_reject t) =
           Some (Rejected (AppError 504 (timeout_message (timer_text t) (timer_requestId t))))"
    by (simp_all add: advance_to_def)
qed

lemma reachable_sendRequest:
  fixes s :: "('q, 'm BaseResponse_scheme) service"
  assumes "reachable s" and "map_of (pendingRequests s) (uuid env) = None"
  shows "reachable (snd (sendRequest env queue request tm s))"
  using reachable_step[OF assms(1), of "SendRequest env queue request tm"] assms(2) by simp

lemma deadline_timer_fields:
  "delay (deadline_timer env tmo p) = tmo"
  "timer_requestId (deadline_timer env tmo p) = uuid env"
  "timer_reject (deadline_timer env tmo p) = p"
  "timer_timeout (deadline_timer env tmo p) = tmo"
  "due (deadline_timer env tmo p) =
     timerClock env + (if 1 \<le> tmo \<and> tmo \<le> 2147483647 then tmo else 1)"
  "1 \<le> tmo \<Longrightarrow> tmo \<le> 2147483647 \<Longrightarrow>
     timer_text (deadline_timer env tmo p) = string_of_nat (nat tmo)"
  by (simp_all add: deadline_timer_def timer_after_def number_text_def)


text \<open>
  Claim C4, as stated, fails in one part: \<open>sendRequest\<close> does not require a positive
  time-out. A call with time-out 0, and one with time-out -5, is registered and published
  like any other; its timer has that delay and is due one millisecond after it is armed.
\<close>

theorem nonpositive_timeout_accepted_counterexample:
  "fst (sendRequest call_u1 ''face.verification.requests'' ''u1'' (Some 0) started) = Inr 0
   \<and> map_option delay
        (timers (snd (sendRequest call_u1 ''face.verification.requests'' ''u1'' (Some 0) started)) 0) =
       Some 0
   \<and> map_option due
        (timers (snd (sendRequest call_u1 ''face.verification.requests'' ''u1'' (Some 0) started)) 0) =
       Some (timerClock call_u1 + 1)
   \<and> fst (sendRequest call_u1 ''face.verification.requests'' ''u1'' (Some (- 5)) started) = Inr 0
   \<and> map_option delay
        (timers (snd (sendRequest call_u1 ''face.verification.requests'' ''u1'' (Some (- 5)) started)) 0) =
       Some (- 5)
   \<and> map_option due
        (timers (snd (sendRequest call_u1 ''face.verification.requests'' ''u1'' (Some (- 5)) started)) 0) =
       Some (timerClock call_u1 + 1)
   \<and> map (fst \<circ> snd) (published (snd (sendRequest call_u1 ''face.verification.requests'' ''u1''
         (Some (- 5)) started))) = [''face.verification.requests'']"
  by (simp add: sendRequest_returns[where b = True] started_fields deadline_timer_fields
      call_u1_def)

text \<open>
  Claim C4, amended. \<open>sendRequest\<close> without a time-out behaves as with the time-out
  30000. The time-out is not checked: whatever it is, a call in a reachable, initialized
  state whose publish returns is registered, with a timer whose delay is the time-out.
  For a time-out from 1 to 2147483647 the timer is due exactly that many milliseconds
  after it is armed, and its text is the digits of the time-out; for any other time-out
  it is due after one millisecond. If nothing else happens to the service, then as long
  as the timer clock is before the due time the call stays registered with its promise
  pending, and once the clock has reached the due time the timer has fired: the entry is
  removed from the registry, the timer is no longer armed and the promise of the call is
  rejected with \<open>AppError(504, Request timeout after <text>ms (requestId: <id>))\<close>. The
  same holds of every timer that is armed in a reachable state.
\<close>

theorem timeout_default_and_expiry:
  fixes s :: "('q, 'm BaseResponse_scheme) service"
  assumes "reachable s" and "isInitialized s"
    and "map_of (pendingRequests s) (uuid env) = None"
    and "publishOutcome env = Returns b"
  shows "sendRequest env queue request None s = sendRequest env queue request (Some 30000) s
       \<and> (\<forall>tmo.
            fst (sendRequest env queue request (Some tmo) s) = Inr (nextPromise s)
          \<and> timers (snd (sendRequest env queue request (Some tmo) s)) (nextTimer s) =
              Some (deadline_timer env tmo (nextPromise s))
          \<and> delay (deadline_timer env tmo (nextPromise s)) = tmo
          \<and> (1 \<le> tmo \<and> tmo \<le> 2147483647 \<longrightarrow>
                due (deadline_timer env tmo (nextPromise s)) = timerClock env + tmo
              \<and> timer_text (deadline_timer env tmo (nextPromise s)) = string_of_nat (nat tmo))
          \<and> (\<not> (1 \<le> tmo \<and> tmo \<le> 2147483647) \<longrightarrow>
                due (deadline_timer env tmo (nextPromise s)) = timerClock env + 1)
          \<and> (\<forall>T. T < due (deadline_timer env tmo (nextPromise s)) \<longrightarrow>
                map_of (pendingRequests
                  (advance_to T (snd (sendRequest env queue request (Some tmo) s)))) (uuid env) =
                  Some \<lparr>settle = nextPromise s, timeout = nextTimer s,
                        pending_requestId = uuid env, requestedAt = dateNow env\<rparr>
              \<and> promises (advance_to T (snd (sendRequest env queue request (Some tmo) s)))
                  (nextPromise s) = Some Pending
              \<and> timers (advance_to T (snd (sendRequest env queue request (Some tmo) s)))
                  (nextTimer s) = Some (deadline_timer env tmo (nextPromise s)))
          \<and> (\<forall>T. due (deadline_timer env tmo (nextPromise s)) \<le> T \<longrightarrow>
                map_of (pendingRequests
                  (advance_to T (snd (sendRequest env queue request (Some tmo) s)))) (uuid env) =
                  None
              \<and> timers (advance_to T (snd (sendRequest env queue request (Some tmo) s)))
                  (nextTimer s) = None
              \<and> promises (advance_to T (snd (sendRequest env queue request (Some tmo) s)))
                  (nextPromise s) =
                  Some (Rejected (AppError 504
                    (timeout_message (timer_text (deadline_timer env tmo (nextPromise s)))
                       (uuid env))))))
       \<and> (\<forall>h t T. timers s h = Some t \<longrightarrow>
            (T < due t \<longrightarrow> timers (advance_to T s) h = Some t)
          \<and> (due t \<le> T \<longrightarrow>
                map_of (pendingRequests (advance_to T s)) (timer_requestId t) = None
              \<and> timers (advance_to T s) h = None
              \<and> promises (advance_to T s) (timer_reject t) =
                  Some (Rejected (AppError 504
                    (timeout_message (timer_text t) (timer_requestId t))))))"
proof (intro conjI allI impI)
  show "sendRequest env queue request None s = sendRequest env queue request (Some 30000) s"
    by (simp add: sendRequest_def)
next
  fix tmo
  let ?s1 = "snd (sendRequest env queue request (Some tmo) s)"
  let ?t = "deadline_timer env tmo (nextPromise s)"
  let ?p = "\<lparr>settle = nextPromise s, timeout = nextTimer s,
             pending_requestId = uuid env, requestedAt = dateNow env\<rparr>"
  note r = sendRequest_returns[OF assms(2,4), of queue request "Some tmo"]
  have r1: "reachable ?s1" by (rule reachable_sendRequest[OF assms(1,3)])
  have m: "map_of (pendingRequests ?s1) (uuid env) = Some ?p"
    by (simp add: r AList.update_conv')
  have a: "timers ?s1 (timeout ?p) = Some ?t" by (simp add: r)
  show "fst (sendRequest env queue request (Some tmo) s) = Inr (nextPromise s)"
    by (simp add: r)
  show "timers ?s1 (nextTimer s) = Some ?t" by (simp add: r)
  show "delay ?t = tmo" by (simp add: deadline_timer_fields)
  show "due ?t = timerClock env + tmo" if "1 \<le> tmo \<and> tmo \<le> 2147483647"
    using that by (simp add: deadline_timer_fields)
  show "timer_text ?t = string_of_nat (nat tmo)" if "1 \<le> tmo \<and> tmo \<le> 2147483647"
    using that by (simp add: deadline_timer_fields)
  show "due ?t = timerClock env + 1" if "\<not> (1 \<le> tmo \<and> tmo \<le> 2147483647)"
    using that by (auto simp: deadline_timer_fields)
  {
    fix T assume before: "T < due ?t"
    note k = advance_keeps[OF r1 m a before]
    show "map_of (pendingRequests (advance_to T ?s1)) (uuid env) = Some ?p" by (rule k(1))
    show "promises (advance_to T ?s1) (nextPromise s) = Some Pending" using k(2) by simp
    show "timers (advance_to T ?s1) (nextTimer s) = Some ?t" using k(3) by simp
  }
  {
    fix T assume reached: "due ?t \<le> T"
    from a have a': "timers ?s1 (nextTimer s) = Some ?t" by simp
    note x = advance_expires[OF r1 a' reached]
    show "map_of (pendingRequests (advance_to T ?s1)) (uuid env) = None"
      using x(1) by (simp add: deadline_timer_fields)
    show "timers (advance_to T ?s1) (nextTimer s) = None" by (rule x(2))
    show "promises (advance_to T ?s1) (nextPromise s) =
            Some (Rejected (AppError 504 (timeout_message (timer_text ?t) (uuid env))))"
      using x(3) by (simp add: deadline_timer_fields)
  }
next
  fix h t T assume a: "timers s h = Some t"
  {
    assume before: "T < due t"
    from timer_fires_owner(4)[OF assms(1) a] obtain p where
      p: "map_of (pendingRequests s) (timer_requestId t) = Some p" "timeout p = h"
      by blast
    from a p(2) have "timers s (timeout p) = Some t" by simp
    from advance_keeps(3)[OF assms(1) p(1) this before] p(2)
    show "timers (advance_to T s) h = Some t" by simp
  }
  {
    assume reached: "due t \<le> T"
    note x = advance_expires[OF assms(1) a reached]
    show "map_of (pendingRequests (advance_to T s)) (timer_requestId t) = None" by (rule x(1))
    show "timers (advance_to T s) h = None" by (rule x(2))
    show "promises (advance_to T s) (timer_reject t) =
            Some (Rejected (AppError 504 (timeout_message (timer_text t) (timer_requestId t))))"
      by (rule x(3))
  }
qed


theorem timeout_default_and_expiry_witness:
  "reachable started \<and> isInitialized started
   \<and> map_of (pendingRequests started) (uuid call_u1) = None
   \<and> publishOutcome call_u1 = Returns True
   \<and> timerClock call_u1 = 70000
   \<and> fst (sendRequest call_u1 ''face.verification.requests'' ''u1'' (Some 200) started) = Inr 0
   \<and> promises (advance_to 70199 waiting_200) 0 = Some Pending
   \<and> map_of (pendingRequests (advance_to 70199 waiting_200)) ''c0ffee'' =
       Some \<lparr>settle = 0, timeout = 0, pending_requestId = ''c0ffee'', requestedAt = 1000\<rparr>
   \<and> map_of (pendingRequests (advance_to 70200 waiting_200)) ''c0ffee'' = None
   \<and> timers (advance_to 70200 waiting_200) 0 = None
   \<and> promises (advance_to 70200 waiting_200) 0 =
       Some (Rejected (AppError 504 ''Request timeout after 200ms (requestId: c0ffee)''))"
proof -
  have i: "isInitialized started" and f: "map_of (pendingRequests started) (uuid call_u1) = None"
    and o: "publishOutcome call_u1 = Returns True" and c: "timerClock call_u1 = 70000"
    and u: "uuid call_u1 = ''c0ffee''" and d: "dateNow call_u1 = 1000"
    by (simp_all add: started_fields call_u1_def)
  have w: "snd (sendRequest call_u1 ''face.verification.requests'' ''u1'' (Some 200) started) =
             waiting_200"
    by (simp add: waiting_200_def)
  have n: "nextPromise started = 0" "nextTimer started = 0" by (simp_all add: started_fields)
  have digits200: "string_of_nat 200 = ''200''"
    by (simp add: string_of_nat.simps[of 200] string_of_nat.simps[of 20] string_of_nat.simps[of 2])
  note t = timeout_default_and_expiry[OF reachable_started i f o,
      of "''face.verification.requests''" "''u1''", THEN conjunct2, THEN conjunct1,
      THEN spec, of 200]
  from t have 1: "fst (sendRequest call_u1 ''face.verification.requests'' ''u1'' (Some 200) started) = Inr 0"
    by (simp add: n)
  from t have due: "due (deadline_timer call_u1 200 0) = 70200"
    and ttext: "timer_text (deadline_timer call_u1 200 0) = ''200''"
    by (simp_all add: n c digits200)
  from t have bef: "\<And>T. T < 70200 \<Longrightarrow>
      map_of (pendingRequests (advance_to T waiting_200)) ''c0ffee'' =
        Some \<lparr>settle = 0, timeout = 0, pending_requestId = ''c0ffee'', requestedAt = 1000\<rparr>
      \<and> promises (advance_to T waiting_200) 0 = Some Pending"
    by (simp add: n w due u d)
  from t have aft: "\<And>T. 70200 \<le> T \<Longrightarrow>
      map_of (pendingRequests (advance_to T waiting_200)) ''c0ffee'' = None
      \<and> timers (advance_to T waiting_200) 0 = None
      \<and> promises (advance_to T waiting_200) 0 =
          Some (Rejected (AppError 504 (timeout_message ''200'' ''c0ffee'')))"
    by (simp add: n w due u ttext)
  have msg: "timeout_message ''200'' ''c0ffee'' = ''Request timeout after 200ms (requestId: c0ffee)''"
    by (simp add: timeout_message_def)
  from bef[of 70199] aft[of 70200] 1 reachable_started i f o c msg
  show ?thesis by simp
qed

section \<open>How a registered call ends\<close>

lemma orphan_stays_pending:
  fixes s :: "('q, 'm BaseResponse_scheme) service"
  assumes r: "reachable s" and q: "promises s q = Some Pending"
    and orphan: "\<forall>k p. map_of (pendingRequests s) k = Some p \<longrightarrow> settle p \<noteq> q"
  shows "promises (step e s) q = Some Pending"
proof (cases e)
  case (Initialize rq rc)
  then show ?thesis using q by (simp add: initialize_fields)
next
  case (SendRequest env queue request tm)
  show ?thesis
  proof (cases "isInitialized s")
    case False
    then show ?thesis using q SendRequest by (simp add: sendRequest_not_initialized)
  next
    case True
    show ?thesis
    proof (cases "publishOutcome env")
      case (Returns b)
      then show ?thesis
        using q SendRequest by (simp add: sendRequest_returns[OF True Returns])
    next
      case (Throws x)
      then show ?thesis
        using q SendRequest by (simp add: sendRequest_throws[OF True Throws])
    qed
  qed
next
  case (HandleResponse response now)
  show ?thesis
  proof (cases "map_of (pendingRequests s) (requestId response)")
    case None
    then show ?thesis using q HandleResponse by (simp add: handleResponse_unknown)
  next
    case (Some p)
    with orphan have "settle p \<noteq> q" by blast
    then show ?thesis
      using q HandleResponse
      by (simp add: handleResponse_fields(3)[OF Some] promise_resolve_def promise_reject_def)
  qed
next
  case (TimerFires h)
  show ?thesis
  proof (cases "timers s h")
    case None
    then show ?thesis using q TimerFires by (simp add: timer_fires_unarmed)
  next
    case (Some t)
    from timer_fires_owner(4)[OF r Some] orphan have "timer_reject t \<noteq> q" by auto
    then show ?thesis
      using q TimerFires by (simp add: timer_fires_fields(3)[OF Some] promise_reject_fields)
  qed
next
  case Cleanup
  have "q \<notin> (settle \<circ> snd) ` set (pendingRequests s)"
  proof
    assume "q \<in> (settle \<circ> snd) ` set (pendingRequests s)"
    then obtain k p where kp: "(k, p) \<in> set (pendingRequests s)" and "settle p = q" by auto
    from reachable_consistent[OF r] have "distinct (map fst (pendingRequests s))"
      by (simp add: consistent_def)
    with kp have "map_of (pendingRequests s) k = Some p" by simp
    with orphan \<open>settle p = q\<close> show False by blast
  qed
  with Cleanup q show ?thesis by (simp add: cleanup_fields)
qed

text \<open>
  Claim C1, as stated, fails: a call that \<open>sendRequest\<close> has registered, and whose publish
  then throws, is ended by none of the four. \<open>sendRequest\<close> itself removes its entry and
  disarms its timer, the call fails with the transport error, and the promise of its
  \<open>PendingRequest\<close> is left pending.
\<close>

theorem failed_publish_ends_by_none_counterexample:
  "map_of (pendingRequests (snd (snd (sendRequest_register
       (call_u1\<lparr>publishOutcome := Throws ''Error: channel closed''\<rparr>) ''u1'' 1000 started))))
     ''c0ffee'' =
     Some \<lparr>settle = 0, timeout = 0, pending_requestId = ''c0ffee'', requestedAt = 1000\<rparr>
   \<and> fst (sendRequest (call_u1\<lparr>publishOutcome := Throws ''Error: channel closed''\<rparr>)
            ''face.verification.requests'' ''u1'' (Some 1000) started) =
       Inl (AppError 503
         ''Falha ao enviar request para face.verification.requests: Error: channel closed'')
   \<and> pendingRequests (snd (sendRequest (call_u1\<lparr>publishOutcome := Throws ''Error: channel closed''\<rparr>)
        ''face.verification.requests'' ''u1'' (Some 1000) started)) = []
   \<and> timers (snd (sendRequest (call_u1\<lparr>publishOutcome := Throws ''Error: channel closed''\<rparr>)
        ''face.verification.requests'' ''u1'' (Some 1000) started)) 0 = None
   \<and> promises (snd (sendRequest (call_u1\<lparr>publishOutcome := Throws ''Error: channel closed''\<rparr>)
        ''face.verification.requests'' ''u1'' (Some 1000) started)) 0 = Some Pending"
  by (simp add: sendRequest_throws[where e = "''Error: channel closed''"] register_result
      started_fields publish_failed_message_def call_u1_def)


lemma reply_ends_call:
  fixes s :: "('q, 'm BaseResponse_scheme) service"
  assumes r: "reachable s" and kp: "map_of (pendingRequests s) k = Some p"
    and id: "requestId response = k"
  shows "map_of (pendingRequests (handleResponse response now s)) k = None"
    and "timers (handleResponse response now s) (timeout p) = None"
    and "success response \<Longrightarrow>
           promises (handleResponse response now s) (settle p) = Some (Fulfilled response)"
    and "\<not> success response \<Longrightarrow>
           promises (handleResponse response now s) (settle p) =
             Some (Rejected (new_AppError
               (or_number (parseInt10 (or_string (map_option code (error response)) ''500''))
                  (Integer 500))
               (or_string (map_option message (error response))
                  ''Face recognition service error'')))"
proof -
  from kp id have m: "map_of (pendingRequests s) (requestId response) = Some p" by simp
  have live: "promises s (settle p) = Some Pending" by (rule registered_is_live(1)[OF r kp])
  show "map_of (pendingRequests (handleResponse response now s)) k = None"
    using handleResponse_removes[of response now s] id by simp
  show "timers (handleResponse response now s) (timeout p) = None"
    by (simp add: handleResponse_fields(2)[OF m])
  show "promises (handleResponse response now s) (settle p) = Some (Fulfilled response)"
    if "success response"
    by (simp add: handleResponse_known_success[OF m live that])
  show "promises (handleResponse response now s) (settle p) =
             Some (Rejected (new_AppError
               (or_number (parseInt10 (or_string (map_option code (error response)) ''500''))
                  (Integer 500))
               (or_string (map_option message (error response))
                  ''Face recognition service error'')))"
    if "\<not> success response"
    by (simp add: handleResponse_known_failure[OF m live that])
qed

lemma cleanup_ends_call:
  fixes s :: "('q, 'm BaseResponse_scheme) service"
  assumes r: "reachable s" and kp: "map_of (pendingRequests s) k = Some p"
  shows "map_of (pendingRequests (cleanup s)) k = None"
    and "timers (cleanup s) (timeout p) = None"
    and "promises (cleanup s) (settle p) = Some (Rejected (AppError 503 ''Service shutting down''))"
proof -
  have live: "promises s (settle p) = Some Pending" by (rule registered_is_live(1)[OF r kp])
  have mem: "(k, p) \<in> set (pendingRequests s)" using kp by (rule map_of_SomeD)
  then have "settle p \<in> (settle \<circ> snd) ` set (pendingRequests s)"
    and "timeout p \<in> (timeout \<circ> snd) ` set (pendingRequests s)"
    by force+
  with live show "map_of (pendingRequests (cleanup s)) k = None"
    and "timers (cleanup s) (timeout p) = None"
    and "promises (cleanup s) (settle p) = Some (Rejected (AppError 503 ''Service shutting down''))"
    by (simp_all add: cleanup_fields)
qed

lemma step_keeps_call:
  fixes s :: "('q, 'm BaseResponse_scheme) service"
  assumes r: "reachable s" and a: "admissible e s"
    and kp: "map_of (pendingRequests s) k = Some p"
    and other: "\<forall>response now. e = HandleResponse response now \<longrightarrow> requestId response \<noteq> k"
    and nt: "e \<noteq> TimerFires (timeout p)" and nc: "e \<noteq> Cleanup"
  shows "map_of (pendingRequests (step e s)) k = Some p"
    and "promises (step e s) (settle p) = Some Pending"
    and "timers (step e s) (timeout p) = timers s (timeout p)"
proof -
  have live: "promises s (settle p) = Some Pending" by (rule registered_is_live(1)[OF r kp])
  have "map_of (pendingRequests (step e s)) k = Some p
      \<and> promises (step e s) (settle p) = Some Pending
      \<and> timers (step e s) (timeout p) = timers s (timeout p)"
  proof (cases e)
    case (Initialize rq rc)
    then show ?thesis using kp live by (simp add: initialize_fields)
  next
    case (SendRequest env queue request tm)
    with a have fresh: "map_of (pendingRequests s) (uuid env) = None" by simp
    from send_keeps_entry[OF r kp fresh, of queue request tm] SendRequest
    show ?thesis by simp
  next
    case (HandleResponse response now)
    with other have "requestId response \<noteq> k" by simp
    from response_keeps_other_entry[OF r kp this, of now] HandleResponse
    show ?thesis by simp
  next
    case (TimerFires h)
    with nt have "h \<noteq> timeout p" by simp
    from timer_keeps_other_entry[OF r kp this] TimerFires
    show ?thesis by simp
  next
    case Cleanup
    with nc show ?thesis by simp
  qed
  then show "map_of (pendingRequests (step e s)) k = Some p"
    and "promises (step e s) (settle p) = Some Pending"
    and "timers (step e s) (timeout p) = timers s (timeout p)"
    by simp_all
qed

lemma failed_send_leaves_promise:
  fixes s :: "('q, 'm BaseResponse_scheme) service"
  assumes r: "reachable s" and i: "isInitialized s"
    and fresh: "map_of (pendingRequests s) (uuid env) = None"
    and t: "publishOutcome env = Throws x"
  shows "fst (sendRequest env queue request tm s) =
           Inl (AppError 503 (publish_failed_message queue x))"
    and "pendingRequests (snd (sendRequest env queue request tm s)) = pendingRequests s"
    and "timers (snd (sendRequest env queue request tm s)) = timers s"
    and "promises (snd (sendRequest env queue request tm s)) (nextPromise s) = Some Pending"
    and "\<forall>k p. map_of (pendingRequests (snd (sendRequest env queue request tm s))) k = Some p
           \<longrightarrow> settle p \<noteq> nextPromise s"
proof -
  note e = sendRequest_throws[OF i t, of queue request tm]
  have d: "AList.delete (uuid env) (pendingRequests s) = pendingRequests s"
    using fresh by (simp add: AList.delete_eq map_of_eq_None_iff filter_id_conv image_iff)
       (force)
  show "fst (sendRequest env queue request tm s) =
           Inl (AppError 503 (publish_failed_message queue x))"
    by (simp add: e)
  show reg: "pendingRequests (snd (sendRequest env queue request tm s)) = pendingRequests s"
    by (simp add: e d)
  show "timers (snd (sendRequest env queue request tm s)) = timers s"
  proof -
    have "(timers s)(nextTimer s := None) = timers s"
      by (rule fun_upd_idem) (rule unallocated(1)[OF r])
    then show ?thesis by (simp add: e)
  qed
  show "promises (snd (sendRequest env queue request tm s)) (nextPromise s) = Some Pending"
    by (simp add: e)
  show "\<forall>k p. map_of (pendingRequests (snd (sendRequest env queue request tm s))) k = Some p
           \<longrightarrow> settle p \<noteq> nextPromise s"
  proof (intro allI impI)
    fix k p
    assume "map_of (pendingRequests (snd (sendRequest env queue request tm s))) k = Some p"
    then have "map_of (pendingRequests s) k = Some p" by (simp add: reg)
    from registered_is_live(1)[OF r this] unallocated(2)[OF r]
    show "settle p \<noteq> nextPromise s" by auto
  qed
qed


text \<open>
  Claim C1, amended. Take a reachable state and any step of the service (with identifiers
  that \<open>uuidv4\<close> may return). Every call in the registry, that is, every call that
  \<open>sendRequest\<close> has registered and published, is not ended yet: its promise is pending
  and its timer is armed. The step ends it in exactly these four cases, each of which
  removes the entry and disarms the timer in the same step: a response for its identifier
  with \<open>success: true\<close> fulfils the promise with the response; such a response with
  \<open>success: false\<close> rejects it with the remote error; the firing of its timer rejects it
  with the time-out error; \<open>cleanup\<close> rejects it with the shutdown error. Every other step
  leaves the entry, the pending promise and the timer as they are. The entry does not
  linger: while the clock is before the due time of its timer, the timers that run leave
  it alone, and once the clock has reached the due time, the entry is gone and the promise
  rejected with the time-out error. A settled promise belongs to no entry and is never
  changed by a step: the terminal states are final. The call whose publish throws is the
  exception: \<open>sendRequest\<close> rejects with the transport error and leaves the registry as it
  was, with the promise of the call pending and owned by no entry; and a pending promise
  that no entry owns stays pending in every step. (When the publish returns, the call is
  in the registry after \<open>sendRequest\<close>, with its promise pending.)
\<close>

theorem pending_call_terminates_exactly_once:
  fixes s :: "('q, 'm BaseResponse_scheme) service"
  assumes "reachable s" and "admissible e s"
  shows "(\<forall>k p. map_of (pendingRequests s) k = Some p \<longrightarrow>
            promises s (settle p) = Some Pending
          \<and> (\<exists>t. timers s (timeout p) = Some t \<and> timer_requestId t = k
                \<and> timer_reject t = settle p
                \<and> (e = TimerFires (timeout p) \<longrightarrow>
                     map_of (pendingRequests (step e s)) k = None
                   \<and> timers (step e s) (timeout p) = None
                   \<and> promises (step e s) (settle p) =
                       Some (Rejected (AppError 504 (timeout_message (timer_text t) k))))
                \<and> (\<forall>T. T < due t \<longrightarrow>
                     map_of (pendingRequests (advance_to T s)) k = Some p
                   \<and> promises (advance_to T s) (settle p) = Some Pending
                   \<and> timers (advance_to T s) (timeout p) = Some t)
                \<and> (\<forall>T. due t \<le> T \<longrightarrow>
                     map_of (pendingRequests (advance_to T s)) k = None
                   \<and> timers (advance_to T s) (timeout p) = None
                   \<and> promises (advance_to T s) (settle p) =
                       Some (Rejected (AppError 504 (timeout_message (timer_text t) k)))))
          \<and> (\<forall>response now. e = HandleResponse response now \<and> requestId response = k \<longrightarrow>
                map_of (pendingRequests (step e s)) k = None
              \<and> timers (step e s) (timeout p) = None
              \<and> promises (step e s) (settle p) =
                  Some (if success response then Fulfilled response
                        else Rejected (new_AppError
                          (or_number
                             (parseInt10 (or_string (map_option code (error response)) ''500''))
                             (Integer 500))
                          (or_string (map_option message (error response))
                             ''Face recognition service error''))))
          \<and> (e = Cleanup \<longrightarrow>
                map_of (pendingRequests (step e s)) k = None
              \<and> timers (step e s) (timeout p) = None
              \<and> promises (step e s) (settle p) =
                  Some (Rejected (AppError 503 ''Service shutting down'')))
          \<and> ((\<forall>response now. e = HandleResponse response now \<longrightarrow> requestId response \<noteq> k)
               \<and> e \<noteq> TimerFires (timeout p) \<and> e \<noteq> Cleanup \<longrightarrow>
                map_of (pendingRequests (step e s)) k = Some p
              \<and> promises (step e s) (settle p) = Some Pending
              \<and> timers (step e s) (timeout p) = timers s (timeout p)))
       \<and> (\<forall>q v. promises s q = Some v \<and> v \<noteq> Pending \<longrightarrow>
            promises (step e s) q = Some v
          \<and> (\<forall>k p. map_of (pendingRequests s) k = Some p \<longrightarrow> settle p \<noteq> q))
       \<and> (\<forall>q. promises s q = Some Pending
              \<and> (\<forall>k p. map_of (pendingRequests s) k = Some p \<longrightarrow> settle p \<noteq> q) \<longrightarrow>
            promises (step e s) q = Some Pending)
       \<and> (\<forall>env queue request tm. e = SendRequest env queue request tm \<and> isInitialized s \<longrightarrow>
            (\<forall>b. publishOutcome env = Returns b \<longrightarrow>
                fst (sendRequest env queue request tm s) = Inr (nextPromise s)
              \<and> map_of (pendingRequests (step e s)) (uuid env) =
                  Some \<lparr>settle = nextPromise s, timeout = nextTimer s,
                        pending_requestId = uuid env, requestedAt = dateNow env\<rparr>
              \<and> promises (step e s) (nextPromise s) = Some Pending)
          \<and> (\<forall>x. publishOutcome env = Throws x \<longrightarrow>
                fst (sendRequest env queue request tm s) =
                  Inl (AppError 503 (publish_failed_message queue x))
              \<and> pendingRequests (step e s) = pendingRequests s
              \<and> timers (step e s) = timers s
              \<and> promises (step e s) (nextPromise s) = Some Pending
              \<and> (\<forall>k p. map_of (pendingRequests (step e s)) k = Some p \<longrightarrow>
                    settle p \<noteq> nextPromise s)))"
proof (intro conjI allI impI)
  note r = assms(1) and a = assms(2)
  {
    fix k p
    assume kp: "map_of (pendingRequests s) k = Some p"
    show "promises s (settle p) = Some Pending" by (rule registered_is_live(1)[OF r kp])
    from registered_is_live(2)[OF r kp] obtain t where
      t: "timers s (timeout p) = Some t" "timer_requestId t = k" "timer_reject t = settle p"
      by blast
    note o = timer_fires_owner[OF r t(1)]
    note before = advance_keeps[OF r kp t(1)]
    note after = advance_expires[OF r t(1)]
    have fires: "e = TimerFires (timeout p) \<longrightarrow>
                     map_of (pendingRequests (step e s)) k = None
                   \<and> timers (step e s) (timeout p) = None
                   \<and> promises (step e s) (settle p) =
                       Some (Rejected (AppError 504 (timeout_message (timer_text t) k)))"
      using o(1,2,3) t(2,3) by simp
    have keeps: "\<forall>T. T < due t \<longrightarrow>
                     map_of (pendingRequests (advance_to T s)) k = Some p
                   \<and> promises (advance_to T s) (settle p) = Some Pending
                   \<and> timers (advance_to T s) (timeout p) = Some t"
      using before by simp
    have expires: "\<forall>T. due t \<le> T \<longrightarrow>
                     map_of (pendingRequests (advance_to T s)) k = None
                   \<and> timers (advance_to T s) (timeout p) = None
                   \<and> promises (advance_to T s) (settle p) =
                       Some (Rejected (AppError 504 (timeout_message (timer_text t) k)))"
      using after t(2,3) by simp
    show "\<exists>t. timers s (timeout p) = Some t \<and> timer_requestId t = k
                \<and> timer_reject t = settle p
                \<and> (e = TimerFires (timeout p) \<longrightarrow>
                     map_of (pendingRequests (step e s)) k = None
                   \<and> timers (step e s) (timeout p) = None
                   \<and> promises (step e s) (settle p) =
                       Some (Rejected (AppError 504 (timeout_message (timer_text t) k))))
                \<and> (\<forall>T. T < due t \<longrightarrow>
                     map_of (pendingRequests (advance_to T s)) k = Some p
                   \<and> promises (advance_to T s) (settle p) = Some Pending
                   \<and> timers (advance_to T s) (timeout p) = Some t)
                \<and> (\<forall>T. due t \<le> T \<longrightarrow>
                     map_of (pendingRequests (advance_to T s)) k = None
                   \<and> timers (advance_to T s) (timeout p) = None
                   \<and> promises (advance_to T s) (settle p) =
                       Some (Rejected (AppError 504 (timeout_message (timer_text t) k))))"
      using t fires keeps expires by (intro exI[of _ t] conjI)
    {
      fix response :: "'m BaseResponse_scheme" and now
      assume e: "e = HandleResponse response now \<and> requestId response = k"
      then have id: "requestId response = k" by simp
      note x = reply_ends_call[OF r kp id, of now]
      show "map_of (pendingRequests (step e s)) k = None" using e x(1) by simp
      show "timers (step e s) (timeout p) = None" using e x(2) by simp
      show "promises (step e s) (settle p) =
                  Some (if success response then Fulfilled response
                        else Rejected (new_AppError
                          (or_number
                             (parseInt10 (or_string (map_option code (error response)) ''500''))
                             (Integer 500))
                          (or_string (map_option message (error response))
                             ''Face recognition service error'')))"
        using e x(3,4) by (cases "success response") simp_all
    }
    {
      assume e: "e = Cleanup"
      note x = cleanup_ends_call[OF r kp]
      show "map_of (pendingRequests (step e s)) k = None" using e x(1) by simp
      show "timers (step e s) (timeout p) = None" using e x(2) by simp
      show "promises (step e s) (settle p) =
                  Some (Rejected (AppError 503 ''Service shutting down''))"
        using e x(3) by simp
    }
    {
      assume e: "(\<forall>response now. e = HandleResponse response now \<longrightarrow> requestId response \<noteq> k)
               \<and> e \<noteq> TimerFires (timeout p) \<and> e \<noteq> Cleanup"
      then have other: "\<forall>response now. e = HandleResponse response now \<longrightarrow> requestId response \<noteq> k"
        and nt: "e \<noteq> TimerFires (timeout p)" and nc: "e \<noteq> Cleanup"
        by simp_all
      note x = step_keeps_call[OF r a kp other nt nc]
      show "map_of (pendingRequests (step e s)) k = Some p" by (rule x(1))
      show "promises (step e s) (settle p) = Some Pending" by (rule x(2))
      show "timers (step e s) (timeout p) = timers s (timeout p)" by (rule x(3))
    }
  }
  {
    fix q v
    assume qv: "promises s q = Some v \<and> v \<noteq> Pending"
    then show "promises (step e s) q = Some v" using settled_stays[OF r] by blast
    fix k p
    assume kp: "map_of (pendingRequests s) k = Some p"
    from registered_is_live(1)[OF r kp] qv show "settle p \<noteq> q" by auto
  }
  {
    fix q
    assume q: "promises s q = Some Pending
              \<and> (\<forall>k p. map_of (pendingRequests s) k = Some p \<longrightarrow> settle p \<noteq> q)"
    then show "promises (step e s) q = Some Pending"
      using orphan_stays_pending[OF r, of q e] by blast
  }
  {
    fix env :: send_env and queue :: string and request :: 'q and tm
    assume e: "e = SendRequest env queue request tm \<and> isInitialized s"
    then have i: "isInitialized s" and st: "step e s = snd (sendRequest env queue request tm s)"
      by simp_all
    from e a have fresh: "map_of (pendingRequests s) (uuid env) = None" by simp
    {
      fix b
      assume o: "publishOutcome env = Returns b"
      note x = sendRequest_returns[OF i o, of queue request tm]
      show "fst (sendRequest env queue request tm s) = Inr (nextPromise s)" by (simp add: x)
      show "map_of (pendingRequests (step e s)) (uuid env) =
                  Some \<lparr>settle = nextPromise s, timeout = nextTimer s,
                        pending_requestId = uuid env, requestedAt = dateNow env\<rparr>"
        by (simp add: st x AList.update_conv')
      show "promises (step e s) (nextPromise s) = Some Pending" by (simp add: st x)
    }
    {
      fix x
      assume o: "publishOutcome env = Throws x"
      note f = failed_send_leaves_promise[OF r i fresh o, of queue request tm]
      show "fst (sendRequest env queue request tm s) =
                  Inl (AppError 503 (publish_failed_message queue x))"
        by (rule f(1))
      show "pendingRequests (step e s) = pendingRequests s" using f(2) by (simp add: st)
      show "timers (step e s) = timers s" using f(3) by (simp add: st)
      show "promises (step e s) (nextPromise s) = Some Pending" using f(4) by (simp add: st)
      fix k p
      assume "map_of (pendingRequests (step e s)) k = Some p"
      with f(5) show "settle p \<noteq> nextPromise s" by (simp add: st)
    }
  }
qed


theorem pending_call_terminates_exactly_once_witness:
  "reachable two_waiting
   \<and> admissible (HandleResponse reply_ok 1040) two_waiting
   \<and> map_of (pendingRequests two_waiting) ''c0ffee'' =
       Some \<lparr>settle = 0, timeout = 0, pending_requestId = ''c0ffee'', requestedAt = 1000\<rparr>
   \<and> promises two_waiting 0 = Some Pending
   \<and> map_of (pendingRequests (step (HandleResponse reply_ok 1040) two_waiting)) ''c0ffee'' = None
   \<and> promises (step (HandleResponse reply_ok 1040) two_waiting) 0 = Some (Fulfilled reply_ok)
   \<and> map_of (pendingRequests
        (step (HandleResponse (reply_failed ''404'' ''face not found'') 1040) two_waiting))
        ''c0ffee'' = None
   \<and> promises (step (HandleResponse (reply_failed ''404'' ''face not found'') 1040) two_waiting) 0 =
       Some (Rejected (AppError 404 ''face not found''))
   \<and> map_of (pendingRequests (step (TimerFires 0) two_waiting)) ''c0ffee'' = None
   \<and> promises (step (TimerFires 0) two_waiting) 0 =
       Some (Rejected (AppError 504 ''Request timeout after 1000ms (requestId: c0ffee)''))
   \<and> map_of (pendingRequests (step Cleanup two_waiting)) ''c0ffee'' = None
   \<and> promises (step Cleanup two_waiting) 0 =
       Some (Rejected (AppError 503 ''Service shutting down''))
   \<and> map_of (pendingRequests (step (TimerFires 1) two_waiting)) ''c0ffee'' =
       Some \<lparr>settle = 0, timeout = 0, pending_requestId = ''c0ffee'', requestedAt = 1000\<rparr>
   \<and> promises (step (TimerFires 1) two_waiting) 0 = Some Pending
   \<and> promises (advance_to 70999 two_waiting) 0 = Some Pending
   \<and> map_of (pendingRequests (advance_to 71000 two_waiting)) ''c0ffee'' = None
   \<and> promises (advance_to 71000 two_waiting) 0 =
       Some (Rejected (AppError 504 ''Request timeout after 1000ms (requestId: c0ffee)''))"
proof -
  let ?p = "\<lparr>settle = 0, timeout = 0, pending_requestId = ''c0ffee'', requestedAt = 1000\<rparr>"
  have m: "map_of (pendingRequests two_waiting) ''c0ffee'' = Some ?p"
    by (simp add: two_waiting_fields)
  have armed: "timers two_waiting 0 = Some (deadline_timer call_u1 1000 0)"
    by (simp add: two_waiting_def call_u2_def waiting_fields sendRequest_returns[where b = True])
  have digits1000: "string_of_nat 1000 = ''1000''"
    by (simp add: string_of_nat.simps[of 1000] string_of_nat.simps[of 100]
        string_of_nat.simps[of 10] string_of_nat.simps[of 1] string_of_nat.simps[of "Suc 0"])
  have tt: "timer_text (deadline_timer call_u1 1000 0) = ''1000''"
    and dd: "due (deadline_timer call_u1 1000 0) = 71000"
    by (simp_all add: deadline_timer_fields digits1000) (simp add: call_u1_def)
  have msg: "timeout_message ''1000'' ''c0ffee'' =
               ''Request timeout after 1000ms (requestId: c0ffee)''"
    by (simp add: timeout_message_def)
  have code: "new_AppError (or_number (parseInt10 (or_string (Some ''404'') ''500'')) (Integer 500))
                (or_string (Some ''face not found'') ''Face recognition service error'') =
              AppError 404 ''face not found''"
    by (simp add: or_number_def parseInt10_examples or_string_def)
  note t = pending_call_terminates_exactly_once[OF reachable_two_waiting, THEN conjunct1,
      THEN spec, THEN spec, THEN mp, OF _ m]
  have a1: "admissible (HandleResponse reply_ok 1040) two_waiting"
    and a2: "admissible (HandleResponse (reply_failed ''404'' ''face not found'') 1040) two_waiting"
    and a3: "admissible (TimerFires 0) two_waiting"
    and a4: "admissible Cleanup two_waiting"
    and a5: "admissible (TimerFires 1) two_waiting"
    by simp_all
  from t[OF a1] have live: "promises two_waiting 0 = Some Pending" by simp
  from t[OF a1] have 1:
    "map_of (pendingRequests (step (HandleResponse reply_ok 1040) two_waiting)) ''c0ffee'' = None"
    "promises (step (HandleResponse reply_ok 1040) two_waiting) 0 = Some (Fulfilled reply_ok)"
    by (simp_all add: reply_ok_def)
  from t[OF a2] have 2:
    "map_of (pendingRequests
        (step (HandleResponse (reply_failed ''404'' ''face not found'') 1040) two_waiting))
        ''c0ffee'' = None"
    "promises (step (HandleResponse (reply_failed ''404'' ''face not found'') 1040) two_waiting) 0 =
       Some (Rejected (AppError 404 ''face not found''))"
    using code by (simp_all add: reply_failed_def)
  from t[OF a3] have 3:
    "map_of (pendingRequests (step (TimerFires 0) two_waiting)) ''c0ffee'' = None"
    "promises (step (TimerFires 0) two_waiting) 0 =
       Some (Rejected (AppError 504 ''Request timeout after 1000ms (requestId: c0ffee)''))"
    by (simp_all add: armed tt msg)
  from t[OF a4] have 4:
    "map_of (pendingRequests (step Cleanup two_waiting)) ''c0ffee'' = None"
    "promises (step Cleanup two_waiting) 0 =
       Some (Rejected (AppError 503 ''Service shutting down''))"
    by simp_all
  from t[OF a5] have 5:
    "map_of (pendingRequests (step (TimerFires 1) two_waiting)) ''c0ffee'' = Some ?p"
    "promises (step (TimerFires 1) two_waiting) 0 = Some Pending"
    by simp_all
  from t[OF a5] have 6:
    "promises (advance_to 70999 two_waiting) 0 = Some Pending"
    "map_of (pendingRequests (advance_to 71000 two_waiting)) ''c0ffee'' = None"
    "promises (advance_to 71000 two_waiting) 0 =
       Some (Rejected (AppError 504 ''Request timeout after 1000ms (requestId: c0ffee)''))"
    by (simp_all add: armed tt dd msg)
  from reachable_two_waiting a1 m live 1 2 3 4 5 6 show ?thesis by (intro conjI)
qed

end
